theory Spec2Isabelle
  imports Complex_Main
begin

section \<open>Strings of the host language\<close>

text \<open>
  The renderer lives in \<^verbatim>\<open>src/app/page.tsx\<close> (\<^verbatim>\<open>normalizeWord\<close> and
  \<^verbatim>\<open>drawQuoteOnCanvas\<close>, third revision in the file). A string of the program is a
  sequence of UTF-16 code units; a code unit is modelled as a natural number (below 65536
  in every string the program holds) and a string as a list of them. \<open>js\<close> turns a literal
  of this theory into such a string, one code unit per character.

  \<^verbatim>\<open>String.prototype.trim\<close> and the regular-expression class \<^verbatim>\<open>\s\<close> share one set of
  white-space code units: TAB, LF, VT, FF, CR, SPACE, NBSP, U+1680, U+2000 to U+200A,
  U+2028, U+2029, U+202F, U+205F, U+3000 and U+FEFF. The class \<^verbatim>\<open>\w\<close> is
  \<^verbatim>\<open>[A-Za-z0-9_]\<close>.
\<close>

type_synonym codeUnit = nat

type_synonym jsString = "codeUnit list"

definition js :: "string \<Rightarrow> jsString" where
  "js s = map of_char s"

abbreviation SP :: codeUnit where
  "SP \<equiv> 0x20"

definition isSpace :: "codeUnit \<Rightarrow> bool" where
  "isSpace c =
     (c \<in> set [0x09, 0x0A, 0x0B, 0x0C, 0x0D, 0x20, 0xA0, 0x1680,
                0x2000, 0x2001, 0x2002, 0x2003, 0x2004, 0x2005, 0x2006, 0x2007, 0x2008,
                0x2009, 0x200A, 0x2028, 0x2029, 0x202F, 0x205F, 0x3000, 0xFEFF])"

definition isWordChar :: "codeUnit \<Rightarrow> bool" where
  "isWordChar c =
     ((0x41 \<le> c \<and> c \<le> 0x5A) \<or> (0x61 \<le> c \<and> c \<le> 0x7A) \<or>
      (0x30 \<le> c \<and> c \<le> 0x39) \<or> c = 0x5F)"

text \<open>
  \<^verbatim>\<open>String.prototype.toUpperCase\<close> is a function of the host: it follows the Unicode
  case mappings (\<^verbatim>\<open>e-acute\<close> becomes \<^verbatim>\<open>E-acute\<close>, sharp s becomes \<^verbatim>\<open>SS\<close>). Where the
  renderer applies it to the quote text and to the artist name it is a parameter of the
  model, of type \<open>toUpperCase\<close>, as \<^verbatim>\<open>measureText\<close> is.

  On a string of \<^verbatim>\<open>\w\<close> characters the host function maps \<^verbatim>\<open>a\<close>..\<^verbatim>\<open>z\<close> to
  \<^verbatim>\<open>A\<close>..\<^verbatim>\<open>Z\<close> and changes nothing else. That is \<open>asciiUpperCase\<close>; it is what
  \<^verbatim>\<open>normalizeWord\<close> computes, which uppercases after it has removed every other
  character, and it serves as the host function in the concrete runs, whose texts are
  ASCII.
\<close>

type_synonym toUpperCase = "jsString \<Rightarrow> jsString"

definition asciiUpperChar :: "codeUnit \<Rightarrow> codeUnit" where
  "asciiUpperChar c = (if 0x61 \<le> c \<and> c \<le> 0x7A then c - 0x20 else c)"

definition asciiUpperCase :: toUpperCase where
  "asciiUpperCase s = map asciiUpperChar s"

definition trim :: "jsString \<Rightarrow> jsString" where
  "trim s = rev (dropWhile isSpace (rev (dropWhile isSpace s)))"

text \<open>
  \<^verbatim>\<open>s.split(' ')\<close>: the pieces between single spaces, empty pieces kept; the empty
  string gives one empty piece.
\<close>

fun split_space :: "jsString \<Rightarrow> jsString list" where
  "split_space [] = [[]]"
| "split_space (c # cs) =
     (if c = SP then [] # split_space cs
      else (let pieces = split_space cs in (c # hd pieces) # tl pieces))"

text \<open>
  \<^verbatim>\<open>s.split(/\s+/)\<close>: the pieces between maximal runs of white space; a run at either
  end leaves an empty piece there, and the empty string gives one empty piece.
\<close>

function split_ws :: "jsString \<Rightarrow> jsString list" where
  "split_ws [] = [[]]"
| "split_ws (c # cs) =
     (if isSpace c then [] # split_ws (dropWhile isSpace cs)
      else (let pieces = split_ws cs in (c # hd pieces) # tl pieces))"
  by pat_completeness auto
termination
  by (relation "measure length") (auto simp: le_imp_less_Suc length_dropWhile_le)

text \<open>
  What splitting at single spaces is specified to be, by its inverse: \<open>join_space\<close> puts
  one space between consecutive pieces (\<^verbatim>\<open>pieces.join(' ')\<close>). It is used in statements
  only, never by the renderer.
\<close>

fun join_space :: "jsString list \<Rightarrow> jsString" where
  "join_space [] = []"
| "join_space [w] = w"
| "join_space (w # v # ws) = w @ SP # join_space (v # ws)"

section \<open>Word normalisation\<close>

text \<open>
  \<^verbatim>\<open>
  const normalizeWord = (word: string): string => {
    if (!word || typeof word !== 'string') return '';
    return word.trim().replace(/[^\w]/g, '').toUpperCase();
  };
  \<close>
\<close>

definition normalizeWord :: "jsString \<Rightarrow> jsString" where
  "normalizeWord word =
     (if word = [] then []
      else asciiUpperCase (filter isWordChar (trim word)))"

section \<open>Data model\<close>

text \<open>
  \<^verbatim>\<open>GeneratedQuote\<close> and the component state that \<^verbatim>\<open>drawQuoteOnCanvas\<close> closes over
  (\<^verbatim>\<open>artistName\<close>, \<^verbatim>\<open>highlightColor\<close>, \<^verbatim>\<open>selectedFont\<close>, \<^verbatim>\<open>fontSize\<close>). An image is
  known by its source and its pixel size. Optional fields are \<^typ>\<open>'a option\<close>. The
  strings the renderer splits, measures or draws are \<open>jsString\<close>; identifiers, URLs,
  colours and font names are only passed on and are kept as \<^typ>\<open>string\<close>.
\<close>

datatype textPos = Top | Bottom

record htmlImage =
  img_src :: string
  img_width :: real
  img_height :: real

record cropRect =
  crop_x :: real
  crop_y :: real
  crop_width :: real
  crop_height :: real

record GeneratedQuote =
  quote_id :: string
  quote_text :: jsString
  highlightedWord :: jsString
  imageUrl :: string
  image :: htmlImage
  textPosition :: textPos
  fontSize :: "real option"
  gradientStart :: "real option"
  cropData :: "cropRect option"

record settings =
  artistName :: jsString
  highlightColor :: string
  selectedFont :: string
  globalFontSize :: real

text \<open>
  \<^verbatim>\<open>FONT_OPTIONS\<close>, by \<^verbatim>\<open>value\<close> and \<^verbatim>\<open>family\<close> (the renderer reads no other field).
\<close>

definition FONT_OPTIONS :: "(string \<times> string) list" where
  \<open>FONT_OPTIONS =
     [(''Montserrat'', ''"Montserrat", sans-serif''),
      (''Playfair Display'', ''"Playfair Display", serif''),
      (''Oswald'', ''"Oswald", sans-serif''),
      (''Raleway'', ''"Raleway", sans-serif''),
      (''Bebas Neue'', ''"Bebas Neue", sans-serif''),
      (''Poppins'', ''"Poppins", sans-serif''),
      (''Lato'', ''"Lato", sans-serif''),
      (''Roboto'', ''"Roboto", sans-serif''),
      (''Inter'', ''"Inter", sans-serif''),
      (''Barlow'', ''"Barlow", sans-serif''),
      (''Arial'', ''Arial, sans-serif'')]\<close>

section \<open>The canvas\<close>

text \<open>
  A 2D context is its drawing state and the list of drawing calls made so far, each call
  with the state it was made in. A font string such as \<^verbatim>\<open>bold 70px Arial\<close> is kept as
  its weight, pixel size and family. \<^verbatim>\<open>measureText(s).width\<close> is a function of the
  current font and the string, supplied by the host.
\<close>

datatype cssFont = Font string real string

datatype paint =
  Color string
| LinearGradient real real real real "(real \<times> string) list"

datatype draw =
  DrawImageCropped htmlImage real real real real real real real real
| DrawImageScaled htmlImage real real real real
| FillRect paint real real real real
| FillText jsString real real cssFont paint string string

record canvas =
  has2d :: bool
  canvas_width :: real
  canvas_height :: real
  font :: cssFont
  fillStyle :: paint
  textAlign :: string
  textBaseline :: string
  drawn :: "draw list"

datatype error = IndexSizeError

type_synonym measureText = "cssFont \<Rightarrow> jsString \<Rightarrow> real"

text \<open>
  Assigning \<^verbatim>\<open>canvas.width\<close> or \<^verbatim>\<open>canvas.height\<close> clears the bitmap and resets the
  context to its default state.
\<close>

definition setCanvasSize :: "canvas \<Rightarrow> real \<Rightarrow> real \<Rightarrow> canvas" where
  "setCanvasSize c w h =
     c\<lparr>canvas_width := w, canvas_height := h,
       font := Font ''normal'' 10 ''sans-serif'', fillStyle := Color ''#000000'',
       textAlign := ''start'', textBaseline := ''alphabetic'', drawn := []\<rparr>"

definition fillRect :: "canvas \<Rightarrow> real \<Rightarrow> real \<Rightarrow> real \<Rightarrow> real \<Rightarrow> canvas" where
  "fillRect c x y w h = c\<lparr>drawn := drawn c @ [FillRect (fillStyle c) x y w h]\<rparr>"

definition fillText :: "canvas \<Rightarrow> jsString \<Rightarrow> real \<Rightarrow> real \<Rightarrow> canvas" where
  "fillText c s x y =
     c\<lparr>drawn := drawn c @ [FillText s x y (font c) (fillStyle c) (textAlign c) (textBaseline c)]\<rparr>"

text \<open>
  \<^verbatim>\<open>addColorStop\<close> throws \<^verbatim>\<open>IndexSizeError\<close> for an offset outside \<^verbatim>\<open>[0, 1]\<close>.
\<close>

definition addColorStop :: "paint \<Rightarrow> real \<Rightarrow> string \<Rightarrow> error + paint" where
  "addColorStop g offset color =
     (if offset < 0 \<or> 1 < offset then Inl IndexSizeError
      else (case g of
              LinearGradient x0 y0 x1 y1 stops \<Rightarrow>
                Inr (LinearGradient x0 y0 x1 y1 (stops @ [(offset, color)]))
            | Color s \<Rightarrow> Inr (Color s)))"

definition bind_error :: "error + 'a \<Rightarrow> ('a \<Rightarrow> error + 'b) \<Rightarrow> error + 'b" where
  "bind_error r f = (case r of Inl e \<Rightarrow> Inl e | Inr v \<Rightarrow> f v)"

section \<open>Numbers\<close>

text \<open>
  A number of the program is an IEEE binary64 value, and the result of \<^verbatim>\<open>+\<close>, \<^verbatim>\<open>-\<close>,
  \<^verbatim>\<open>*\<close> and \<^verbatim>\<open>/\<close> is the exact result rounded to the nearest value with a 53-bit
  significand, ties to the even significand. \<open>binary64 x\<close> is that rounding of the real
  \<open>x\<close>: \<open>binade x\<close> is the exponent \<open>e\<close> with \<open>2\<^sup>e \<le> \<bar>x\<bar> < 2\<^sup>e\<^sup>+\<^sup>1\<close>, and \<open>x\<close> is rounded to a
  multiple of \<open>2\<^sup>e\<^sup>-\<^sup>5\<^sup>2\<close>. The exponent range is not bounded (no overflow, no subnormal
  numbers); sizes and positions on the canvas stay far inside the range of binary64.

  Every arithmetic result of the renderer is rounded so, in the cover crop and in the
  placement of the text alike, and a decimal literal of the source such as \<^verbatim>\<open>1.3\<close> is
  the rounded value \<open>binary64 1.3\<close>. Numbers that come from outside (image sizes, font
  sizes, measured widths) are taken as they are.
\<close>

definition roundHalfEven :: "real \<Rightarrow> int" where
  "roundHalfEven r =
     (let f = \<lfloor>r\<rfloor>; d = r - of_int f
      in if d < 1 / 2 then f else if 1 / 2 < d then f + 1 else if even f then f else f + 1)"

definition binade :: "real \<Rightarrow> int" where
  "binade x = \<lfloor>log 2 \<bar>x\<bar>\<rfloor>"

definition binary64 :: "real \<Rightarrow> real" where
  "binary64 x =
     (if x = 0 then 0
      else of_int (roundHalfEven (x / 2 powi (binade x - 52))) * 2 powi (binade x - 52))"

section \<open>Background: smart crop or centred cover\<close>

text \<open>
  The fallback branch of \<^verbatim>\<open>drawQuoteOnCanvas\<close> (no \<^verbatim>\<open>cropData\<close>): the aspect-ratio
  branch, then the two blocks under the comment "Ensure minimum size to cover canvas
  completely". The four variables of the source are the fields of the result.
\<close>

record drawRect =
  drawWidth :: real
  drawHeight :: real
  offsetX :: real
  offsetY :: real

definition aspectFit :: "real \<Rightarrow> real \<Rightarrow> real \<Rightarrow> real \<Rightarrow> drawRect" where
  "aspectFit canvasW canvasH imgW imgH =
     (let imgAspect = binary64 (imgW / imgH);
          canvasAspect = binary64 (canvasW / canvasH)
      in if imgAspect > canvasAspect
         then (let dh = canvasH;
                   dw = binary64 (dh * imgAspect)
               in \<lparr>drawWidth = dw, drawHeight = dh,
                   offsetX = binary64 (binary64 (canvasW - dw) / 2), offsetY = 0\<rparr>)
         else (let dw = canvasW;
                   dh = binary64 (dw / imgAspect)
               in \<lparr>drawWidth = dw, drawHeight = dh,
                   offsetX = 0, offsetY = binary64 (binary64 (canvasH - dh) / 2)\<rparr>))"

definition ensureWidth :: "real \<Rightarrow> real \<Rightarrow> real \<Rightarrow> drawRect \<Rightarrow> drawRect" where
  "ensureWidth canvasW canvasH imgAspect r =
     (if drawWidth r < canvasW
      then (let dw = canvasW;
                dh = binary64 (dw / imgAspect)
            in \<lparr>drawWidth = dw, drawHeight = dh,
                offsetX = 0, offsetY = binary64 (binary64 (canvasH - dh) / 2)\<rparr>)
      else r)"

definition ensureHeight :: "real \<Rightarrow> real \<Rightarrow> real \<Rightarrow> drawRect \<Rightarrow> drawRect" where
  "ensureHeight canvasW canvasH imgAspect r =
     (if drawHeight r < canvasH
      then (let dh = canvasH;
                dw = binary64 (dh * imgAspect)
            in \<lparr>drawWidth = dw, drawHeight = dh,
                offsetX = binary64 (binary64 (canvasW - dw) / 2), offsetY = 0\<rparr>)
      else r)"

definition fallbackCrop :: "real \<Rightarrow> real \<Rightarrow> real \<Rightarrow> real \<Rightarrow> drawRect" where
  "fallbackCrop canvasW canvasH imgW imgH =
     ensureHeight canvasW canvasH (binary64 (imgW / imgH))
       (ensureWidth canvasW canvasH (binary64 (imgW / imgH))
          (aspectFit canvasW canvasH imgW imgH))"

text \<open>The same computation with both "ensure minimum size" blocks deleted.\<close>

definition fallbackCrop_unguarded :: "real \<Rightarrow> real \<Rightarrow> real \<Rightarrow> real \<Rightarrow> drawRect" where
  "fallbackCrop_unguarded canvasW canvasH imgW imgH = aspectFit canvasW canvasH imgW imgH"

definition drawBackground :: "canvas \<Rightarrow> GeneratedQuote \<Rightarrow> canvas" where
  "drawBackground c quote =
     (case cropData quote of
        Some crop \<Rightarrow>
          c\<lparr>drawn := drawn c @
               [DrawImageCropped (image quote) (crop_x crop) (crop_y crop)
                  (crop_width crop) (crop_height crop) 0 0 (canvas_width c) (canvas_height c)]\<rparr>
      | None \<Rightarrow>
          (let r = fallbackCrop (canvas_width c) (canvas_height c)
                     (img_width (image quote)) (img_height (image quote))
           in c\<lparr>drawn := drawn c @
                  [DrawImageScaled (image quote) (offsetX r) (offsetY r)
                     (drawWidth r) (drawHeight r)]\<rparr>))"

section \<open>Gradient overlay\<close>

definition gradientStartPosition :: "GeneratedQuote \<Rightarrow> real" where
  "gradientStartPosition quote = (case gradientStart quote of Some g \<Rightarrow> g | None \<Rightarrow> 0.5)"

definition buildGradient :: "textPos \<Rightarrow> real \<Rightarrow> real \<Rightarrow> error + paint" where
  "buildGradient pos canvasH start =
     (let gradient = LinearGradient 0 0 0 canvasH []
      in if pos = Top
         then bind_error (addColorStop gradient 0 ''rgba(0, 0, 0, 0.85)'') (\<lambda>g1.
              bind_error (addColorStop g1 start ''rgba(0, 0, 0, 0)'') (\<lambda>g2.
              addColorStop g2 1 ''rgba(0, 0, 0, 0)''))
         else bind_error (addColorStop gradient 0 ''rgba(0, 0, 0, 0)'') (\<lambda>g1.
              bind_error (addColorStop g1 start ''rgba(0, 0, 0, 0)'') (\<lambda>g2.
              addColorStop g2 1 ''rgba(0, 0, 0, 0.85)'')))"

definition gradientStops :: "paint \<Rightarrow> (real \<times> string) list" where
  "gradientStops p = (case p of LinearGradient x0 y0 x1 y1 stops \<Rightarrow> stops | Color s \<Rightarrow> [])"

definition drawGradient :: "canvas \<Rightarrow> GeneratedQuote \<Rightarrow> error + canvas" where
  "drawGradient c quote =
     bind_error (buildGradient (textPosition quote) (canvas_height c) (gradientStartPosition quote))
       (\<lambda>gradient. Inr (fillRect (c\<lparr>fillStyle := gradient\<rparr>) 0 0 (canvas_width c) (canvas_height c)))"

section \<open>Text layout\<close>

definition effectiveFontSize :: "settings \<Rightarrow> GeneratedQuote \<Rightarrow> real" where
  \<comment> \<open>\<^verbatim>\<open>quote.fontSize || fontSize\<close>: an absent or zero override falls back.\<close>
  "effectiveFontSize st quote =
     (case fontSize quote of
        Some v \<Rightarrow> if v = 0 then globalFontSize st else v
      | None \<Rightarrow> globalFontSize st)"

definition fontFamily :: "settings \<Rightarrow> string" where
  "fontFamily st =
     (case find (\<lambda>f. fst f = selectedFont st) FONT_OPTIONS of
        Some fontOption \<Rightarrow> snd fontOption
      | None \<Rightarrow> ''Arial, sans-serif'')"

definition bodyFont :: "settings \<Rightarrow> GeneratedQuote \<Rightarrow> cssFont" where
  "bodyFont st quote = Font ''bold'' (effectiveFontSize st quote) (fontFamily st)"

definition maxWidth :: real where
  "maxWidth = 900"

definition bottomPadding :: real where
  "bottomPadding = 200"

definition topPadding :: real where
  "topPadding = 200"

definition lineHeight :: "real \<Rightarrow> real" where
  "lineHeight efs = binary64 (efs * binary64 1.3)"

text \<open>
  The body of \<^verbatim>\<open>words.forEach\<close>; the pair is the array \<^verbatim>\<open>lines\<close> and the buffer
  \<^verbatim>\<open>currentLine\<close>.
\<close>

definition wrapWord ::
  "(jsString \<Rightarrow> real) \<Rightarrow> jsString list \<times> jsString \<Rightarrow> jsString \<Rightarrow> jsString list \<times> jsString" where
  "wrapWord widthOf st word =
     (let (lines, currentLine) = st;
          testLine = currentLine @ word @ [SP];
          metrics_width = widthOf testLine
      in if metrics_width > maxWidth \<and> currentLine \<noteq> []
         then (lines @ [trim currentLine], word @ [SP])
         else (lines, testLine))"

definition wrapWords :: "(jsString \<Rightarrow> real) \<Rightarrow> jsString list \<Rightarrow> jsString list \<times> jsString" where
  "wrapWords widthOf words = foldl (wrapWord widthOf) ([], []) words"

definition finishLines :: "jsString list \<times> jsString \<Rightarrow> jsString list" where
  "finishLines st =
     (let (lines, currentLine) = st
      in if currentLine \<noteq> [] then lines @ [trim currentLine] else lines)"

definition layoutLines :: "toUpperCase \<Rightarrow> (jsString \<Rightarrow> real) \<Rightarrow> jsString \<Rightarrow> jsString list" where
  "layoutLines toUpper widthOf text_in =
     (let words = split_space (toUpper text_in)
      in finishLines (wrapWords widthOf words))"

definition startY :: "textPos \<Rightarrow> real \<Rightarrow> real \<Rightarrow> nat \<Rightarrow> real" where
  "startY pos canvasH lh lineCount =
     (let totalTextHeight = binary64 (real lineCount * lh)
      in if pos = Top then binary64 (topPadding + binary64 (lh / 2))
         else binary64 (binary64 (canvasH - bottomPadding) - totalTextHeight))"

section \<open>Glyphs\<close>

text \<open>
  The opening quotation mark is the string literal of the source as the program holds
  it: three code units, U+201A, U+00C4 and U+00FA. It is only measured and drawn.
\<close>

definition openingQuote :: jsString where
  "openingQuote = [0x201A, 0x00C4, 0x00FA]"

text \<open>
  The fonts \<^verbatim>\<open>`300 ${quoteMarkSize}px "Times New Roman", Georgia, serif`\<close> and
  \<^verbatim>\<open>'36px Arial, sans-serif'\<close>.
\<close>

definition quoteMarkFont :: "real \<Rightarrow> cssFont" where
  \<open>quoteMarkFont quoteMarkSize = Font ''300'' quoteMarkSize ''"Times New Roman", Georgia, serif''\<close>

definition captionFont :: cssFont where
  "captionFont = Font ''normal'' 36 ''Arial, sans-serif''"

definition drawOpeningQuote ::
  "measureText \<Rightarrow> real \<Rightarrow> real \<Rightarrow> real \<Rightarrow> jsString list \<Rightarrow> canvas \<Rightarrow> canvas" where
  "drawOpeningQuote measureText efs centerX sY lines c =
     (case lines of
        [] \<Rightarrow> c
      | firstLineText # rest \<Rightarrow>
          (let firstLineWidth = measureText (font c) firstLineText;
               firstLineX = binary64 (centerX - binary64 (firstLineWidth / 2));
               firstLineY = sY;
               quoteMarkSize = binary64 (efs * binary64 1.57);
               c1 = c\<lparr>font := quoteMarkFont quoteMarkSize,
                       fillStyle := Color ''#ffffff'', textAlign := ''left''\<rparr>;
               quoteWidth = measureText (font c1) openingQuote;
               quoteGap = 16;
               quoteX = binary64 (binary64 (firstLineX - quoteGap) - quoteWidth);
               quoteY = firstLineY
           in fillText c1 openingQuote quoteX quoteY))"

definition normalizedHighlightedWord :: "GeneratedQuote \<Rightarrow> jsString" where
  "normalizedHighlightedWord quote =
     (if highlightedWord quote \<noteq> [] then normalizeWord (trim (highlightedWord quote)) else [])"

definition shouldHighlight :: "jsString \<Rightarrow> jsString \<Rightarrow> bool" where
  "shouldHighlight normalizedHighlighted normalizedLineWord =
     (normalizedHighlighted \<noteq> [] \<and>
      length normalizedHighlighted > 0 \<and>
      length normalizedLineWord > 0 \<and>
      normalizedLineWord = normalizedHighlighted)"

definition lineWords :: "jsString \<Rightarrow> jsString list" where
  "lineWords line = filter (\<lambda>word. length (trim word) > 0) (split_ws line)"

text \<open>
  The body of \<^verbatim>\<open>lineWords.forEach\<close>; the state is the canvas and the cursor \<^verbatim>\<open>lineX\<close>.
\<close>

definition drawWord ::
  "measureText \<Rightarrow> string \<Rightarrow> jsString \<Rightarrow> real \<Rightarrow> canvas \<times> real \<Rightarrow> jsString \<Rightarrow> canvas \<times> real" where
  "drawWord measureText highlight normalizedHighlighted y st lineWord =
     (let (c, lineX) = st;
          normalizedLineWord = normalizeWord lineWord;
          c1 = (if shouldHighlight normalizedHighlighted normalizedLineWord
                then c\<lparr>fillStyle := Color highlight\<rparr>
                else c\<lparr>fillStyle := Color ''#ffffff''\<rparr>);
          wordWidth = measureText (font c1) lineWord;
          spaceWidth = measureText (font c1) [SP];
          c2 = c1\<lparr>textAlign := ''left''\<rparr>;
          c3 = fillText c2 lineWord lineX y
      in (c3, binary64 (lineX + binary64 (wordWidth + spaceWidth))))"

text \<open>The body of \<^verbatim>\<open>lines.forEach((line, lineIndex) => ...)\<close>.\<close>

definition drawLine ::
  "measureText \<Rightarrow> string \<Rightarrow> jsString \<Rightarrow> real \<Rightarrow> real \<Rightarrow> real \<Rightarrow> canvas \<Rightarrow> jsString \<times> nat \<Rightarrow> canvas" where
  "drawLine measureText highlight normalizedHighlighted centerX sY lh c entry =
     (let (line, lineIndex) = entry;
          y = binary64 (sY + binary64 (real lineIndex * lh));
          lineWidth = measureText (font c) line;
          lineX = binary64 (centerX - binary64 (lineWidth / 2))
      in fst (foldl (drawWord measureText highlight normalizedHighlighted y) (c, lineX)
                (lineWords line)))"

definition drawLines ::
  "measureText \<Rightarrow> string \<Rightarrow> jsString \<Rightarrow> real \<Rightarrow> real \<Rightarrow> real \<Rightarrow> jsString list \<Rightarrow> canvas \<Rightarrow> canvas" where
  "drawLines measureText highlight normalizedHighlighted centerX sY lh lines c =
     foldl (drawLine measureText highlight normalizedHighlighted centerX sY lh) c
       (zip lines [0 ..< length lines])"

definition drawArtistName :: "toUpperCase \<Rightarrow> settings \<Rightarrow> textPos \<Rightarrow> real \<Rightarrow> canvas \<Rightarrow> canvas" where
  "drawArtistName toUpper st pos centerX c =
     (let c1 = c\<lparr>font := captionFont,
                  fillStyle := Color ''#ffffff'', textAlign := ''center''\<rparr>;
          artistNameY = (if pos = Top then binary64 (canvas_height c - 100)
                         else binary64 (canvas_height c - 100))
      in fillText c1 (toUpper (artistName st)) centerX artistNameY)"

section \<open>The renderer\<close>

text \<open>
  \<^verbatim>\<open>drawQuoteOnCanvas(canvas, quote)\<close>, statement by statement; the two host functions
  come first. Without a 2D context it returns at once and the canvas is left as it was.
  The only call that can throw is \<^verbatim>\<open>addColorStop\<close>. The two \<^verbatim>\<open>console.log\<close> calls draw
  nothing and are left out.
\<close>

definition drawText ::
  "toUpperCase \<Rightarrow> measureText \<Rightarrow> settings \<Rightarrow> GeneratedQuote \<Rightarrow> canvas \<Rightarrow> canvas" where
  "drawText toUpper measureText st quote c =
     (let efs = effectiveFontSize st quote;
          centerX = binary64 (canvas_width c / 2);
          lh = lineHeight efs;
          c1 = c\<lparr>font := bodyFont st quote, textAlign := ''center'', textBaseline := ''middle''\<rparr>;
          lines = layoutLines toUpper (measureText (font c1)) (quote_text quote);
          sY = startY (textPosition quote) (canvas_height c1) lh (length lines);
          c2 = drawOpeningQuote measureText efs centerX sY lines c1;
          c3 = c2\<lparr>font := bodyFont st quote, textAlign := ''center''\<rparr>;
          c4 = drawLines measureText (highlightColor st) (normalizedHighlightedWord quote)
                 centerX sY lh lines c3
      in drawArtistName toUpper st (textPosition quote) centerX c4)"

definition drawQuoteOnCanvas ::
  "toUpperCase \<Rightarrow> measureText \<Rightarrow> settings \<Rightarrow> canvas \<Rightarrow> GeneratedQuote \<Rightarrow> error + canvas" where
  "drawQuoteOnCanvas toUpper measureText st canvas0 quote =
     (if \<not> has2d canvas0 then Inr canvas0
      else
        (let c0 = setCanvasSize canvas0 1080 1350;
             c1 = drawBackground c0 quote
         in bind_error (drawGradient c1 quote)
              (\<lambda>c2. Inr (drawText toUpper measureText st quote c2))))"

section \<open>Reading the drawing list\<close>

text \<open>
  \<open>textCalls ds\<close>: the \<^verbatim>\<open>fillText\<close> calls of a drawing list in order, each as its
  text, its position \<open>x\<close>, \<open>y\<close> and the fill style it was made with. \<open>placed\<close> keeps text
  and vertical position, \<open>painted\<close> text and fill style.
\<close>

definition textCall :: "draw \<Rightarrow> (jsString \<times> real \<times> real \<times> paint) option" where
  "textCall d = (case d of FillText s x y f p a b \<Rightarrow> Some (s, x, y, p) | _ \<Rightarrow> None)"

definition textCalls :: "draw list \<Rightarrow> (jsString \<times> real \<times> real \<times> paint) list" where
  "textCalls ds = List.map_filter textCall ds"

definition placed :: "draw list \<Rightarrow> (jsString \<times> real) list" where
  "placed ds = map (\<lambda>(s, x, y, p). (s, y)) (textCalls ds)"

definition painted :: "draw list \<Rightarrow> (jsString \<times> paint) list" where
  "painted ds = map (\<lambda>(s, x, y, p). (s, p)) (textCalls ds)"

section \<open>Host fonts for concrete runs\<close>

text \<open>
  A fixed-pitch font: every code unit is \<open>w\<close> pixels wide in every font.
\<close>

definition fixedPitch :: "real \<Rightarrow> measureText" where
  "fixedPitch w f s = w * real (length s)"



section \<open>Sample inputs\<close>

text \<open>
  The spec's scenario: the quote "the only way out is through" with \<^verbatim>\<open>through\<close>
  highlighted, text at the top, gradient start 0.3, on a landscape image; the initial
  component state; and three canvases: fresh, used, and one whose \<^verbatim>\<open>getContext('2d')\<close>
  gives \<^verbatim>\<open>null\<close>.
\<close>

definition sampleQuote :: GeneratedQuote where
  "sampleQuote =
     \<lparr>quote_id = ''1'', quote_text = js ''the only way out is through'',
      highlightedWord = js ''through'', imageUrl = ''blob:1'',
      image = \<lparr>img_src = ''blob:1'', img_width = 2000, img_height = 1000\<rparr>,
      textPosition = Top, fontSize = None, gradientStart = Some 0.3, cropData = None\<rparr>"

definition sampleSettings :: settings where
  "sampleSettings =
     \<lparr>artistName = js ''Rumi'', highlightColor = ''#FF8C00'', selectedFont = ''Oswald'',
      globalFontSize = 70\<rparr>"

definition blankCanvas :: canvas where
  "blankCanvas =
     \<lparr>has2d = True, canvas_width = 300, canvas_height = 150,
      font = Font ''normal'' 10 ''sans-serif'', fillStyle = Color ''#000000'',
      textAlign = ''start'', textBaseline = ''alphabetic'', drawn = []\<rparr>"

definition usedCanvas :: canvas where
  "usedCanvas =
     \<lparr>has2d = True, canvas_width = 1080, canvas_height = 1350,
      font = captionFont, fillStyle = Color ''#ffffff'',
      textAlign = ''center'', textBaseline = ''middle'',
      drawn = [FillRect (Color ''#ff0000'') 0 0 1080 1350,
               FillText (js ''OLD'') 540 1250 captionFont (Color ''#ffffff'') ''center'' ''middle'']\<rparr>"

definition noContextCanvas :: canvas where
  "noContextCanvas = blankCanvas\<lparr>has2d := False\<rparr>"

section \<open>Facts about the string functions\<close>

text \<open>
  The recursive equations of the two split functions with the shared call written twice;
  the defining equations, which share it, are kept for evaluation.
\<close>

lemma split_space_Cons [simp]:
  "split_space (c # cs) =
     (if c = SP then [] # split_space cs
      else (c # hd (split_space cs)) # tl (split_space cs))"
  by (simp add: Let_def)

lemma split_ws_Cons [simp]:
  "split_ws (c # cs) =
     (if isSpace c then [] # split_ws (dropWhile isSpace cs)
      else (c # hd (split_ws cs)) # tl (split_ws cs))"
  by (simp add: Let_def)

declare split_space.simps(2) [simp del]
declare split_ws.simps(2) [simp del]

lemma trim_Nil: "trim [] = []"
  by (simp add: trim_def)

lemma dropWhile_stripped:
  "dropWhile P (rev (dropWhile P (rev (dropWhile P s)))) = rev (dropWhile P (rev (dropWhile P s)))"
proof (cases "dropWhile P s")
  case Nil
  then show ?thesis by (simp del: dropWhile_eq_Nil_conv)
next
  case (Cons a t)
  then have na: "\<not> P a" using hd_dropWhile[of P s] by (metis list.sel(1) list.simps(3))
  then have "dropWhile P (rev (dropWhile P (rev (a # t)))) = rev (dropWhile P (rev (a # t)))"
    by (metis (no_types, lifting) Nil_is_append_conv dropWhile_eq_self_iff
    hd_rev last_appendR list.sel(1) rev_append rev_rev_ident
    takeWhile_dropWhile_id)
  then show ?thesis by (simp only: Cons)
qed

lemma trim_idem: "trim (trim s) = trim s"
  unfolding trim_def by (simp add: dropWhile_stripped)


lemma split_ws_nonempty: "split_ws s \<noteq> []"
  by (induction s rule: split_ws.induct) auto

lemma split_ws_no_space: "w \<in> set (split_ws s) \<Longrightarrow> c \<in> set w \<Longrightarrow> \<not> isSpace c"
proof (induction s arbitrary: w rule: split_ws.induct)
  case 1
  then show ?case by simp
next
  case (2 x xs)
  show ?case
  proof (cases "isSpace x")
    case True
    with 2 show ?thesis by auto
  next
    case False
    have ne: "split_ws xs \<noteq> []" by (rule split_ws_nonempty)
    from "2.prems"(1) False have "w = x # hd (split_ws xs) \<or> w \<in> set (tl (split_ws xs))" by simp
    then show ?thesis
    proof
      assume w: "w = x # hd (split_ws xs)"
      have "hd (split_ws xs) \<in> set (split_ws xs)" using ne by simp
      with "2.IH"(2)[OF False] "2.prems"(2) w False show ?thesis by auto
    next
      assume "w \<in> set (tl (split_ws xs))"
      then have "w \<in> set (split_ws xs)" using ne by (metis list.set_sel(2))
      with "2.IH"(2)[OF False] "2.prems"(2) show ?thesis by blast
    qed
  qed
qed

lemma trim_no_space: "\<forall>c\<in>set w. \<not> isSpace c \<Longrightarrow> trim w = w"
  unfolding trim_def
  by (metis dropWhile_eq_self_iff hd_in_set rev_rev_ident set_rev rev_is_Nil_conv)

lemma lineWords_filter: "lineWords s = filter (\<lambda>w. w \<noteq> []) (split_ws s)"
  unfolding lineWords_def
  by (rule filter_cong) (auto simp: trim_no_space split_ws_no_space)

lemma lineWords_Nil: "lineWords [] = []"
  by (simp add: lineWords_filter)

lemma lineWords_dropWhile: "lineWords (dropWhile isSpace s) = lineWords s"
  by (cases s) (auto simp: lineWords_filter)

lemma lineWords_space_Cons: "isSpace c \<Longrightarrow> lineWords (c # s) = lineWords s"
  using lineWords_dropWhile[of s] by (simp add: lineWords_filter)

lemma split_ws_append_space:
  "isSpace c \<Longrightarrow>
   hd (split_ws (a @ c # b)) = hd (split_ws a) \<and>
   filter (\<lambda>w. w \<noteq> []) (tl (split_ws (a @ c # b))) =
     filter (\<lambda>w. w \<noteq> []) (tl (split_ws a)) @ lineWords b"
proof (induction a)
  case Nil
  then show ?case using lineWords_dropWhile[of b] by (simp add: lineWords_filter)
next
  case (Cons x a)
  have ne: "split_ws (a @ c # b) \<noteq> []" "split_ws a \<noteq> []" by (rule split_ws_nonempty)+
  show ?case
  proof (cases "isSpace x")
    case True
    have "lineWords (a @ c # b) = lineWords a @ lineWords b"
    proof -
      have "lineWords (a @ c # b) =
            filter (\<lambda>w. w \<noteq> []) (hd (split_ws (a @ c # b)) # tl (split_ws (a @ c # b)))"
        using ne by (simp add: lineWords_filter)
      also have "\<dots> = filter (\<lambda>w. w \<noteq> []) (hd (split_ws a) # tl (split_ws a)) @ lineWords b"
        using Cons.IH[OF Cons.prems] by simp
      also have "\<dots> = lineWords a @ lineWords b"
        using ne by (simp add: lineWords_filter)
      finally show ?thesis .
    qed
    moreover have "filter (\<lambda>w. w \<noteq> []) (tl (split_ws ((x # a) @ c # b))) = lineWords (a @ c # b)"
      using True lineWords_dropWhile[of "a @ c # b"] by (simp add: lineWords_filter)
    moreover have "filter (\<lambda>w. w \<noteq> []) (tl (split_ws (x # a))) = lineWords a"
      using True lineWords_dropWhile[of a] by (simp add: lineWords_filter)
    ultimately show ?thesis using True by simp
  next
    case False
    then show ?thesis using Cons.IH[OF Cons.prems] by simp
  qed
qed

lemma lineWords_append_space:
  assumes "isSpace c"
  shows "lineWords (a @ c # b) = lineWords a @ lineWords b"
proof -
  have ne: "split_ws (a @ c # b) \<noteq> []" "split_ws a \<noteq> []" by (rule split_ws_nonempty)+
  have "lineWords (a @ c # b) =
        filter (\<lambda>w. w \<noteq> []) (hd (split_ws (a @ c # b)) # tl (split_ws (a @ c # b)))"
    using ne by (simp add: lineWords_filter)
  also have "\<dots> = filter (\<lambda>w. w \<noteq> []) (hd (split_ws a) # tl (split_ws a)) @ lineWords b"
    using split_ws_append_space[OF assms, of a b] by simp
  also have "\<dots> = lineWords a @ lineWords b"
    using ne by (simp add: lineWords_filter)
  finally show ?thesis .
qed

lemma lineWords_all_space: "\<forall>c\<in>set s. isSpace c \<Longrightarrow> lineWords s = []"
  by (induction s) (simp_all add: lineWords_Nil lineWords_space_Cons)

lemma lineWords_append_spaces:
  "\<forall>c\<in>set sp. isSpace c \<Longrightarrow> lineWords (u @ sp) = lineWords u"
  by (cases sp) (simp_all add: lineWords_append_space lineWords_all_space)

lemma lineWords_trim: "lineWords (trim s) = lineWords s"
proof -
  let ?t = "dropWhile isSpace s"
  have "?t = rev (dropWhile isSpace (rev ?t)) @ rev (takeWhile isSpace (rev ?t))"
    by (metis rev_append rev_rev_ident takeWhile_dropWhile_id)
  moreover have "\<forall>c\<in>set (rev (takeWhile isSpace (rev ?t))). isSpace c"
    by (auto dest: set_takeWhileD)
  ultimately have "lineWords ?t = lineWords (rev (dropWhile isSpace (rev ?t)))"
    using lineWords_append_spaces by metis
  then show ?thesis by (simp add: trim_def lineWords_dropWhile)
qed

lemma split_space_nonempty: "split_space s \<noteq> []"
  by (induction s) auto

lemma lineWords_split_space_prefix:
  "lineWords (p @ s) =
   lineWords (p @ hd (split_space s)) @ concat (map lineWords (tl (split_space s)))"
proof (induction s arbitrary: p)
  case Nil
  then show ?case by simp
next
  case (Cons c s)
  have sp: "isSpace (SP)" by (simp add: isSpace_def)
  have ne: "split_space s \<noteq> []" by (rule split_space_nonempty)
  show ?case
  proof (cases "c = SP")
    case True
    have "lineWords s = lineWords (hd (split_space s)) @ concat (map lineWords (tl (split_space s)))"
      using Cons.IH[of "[]"] by simp
    also have "\<dots> = concat (map lineWords (split_space s))"
      using ne by (cases "split_space s") simp_all
    finally have "lineWords s = concat (map lineWords (split_space s))" .
    then show ?thesis using True lineWords_append_space[OF sp, of p s] by simp
  next
    case False
    then show ?thesis using Cons.IH[of "p @ [c]"] by simp
  qed
qed

lemma lineWords_split_space: "concat (map lineWords (split_space s)) = lineWords s"
proof -
  have ne: "split_space s \<noteq> []" by (rule split_space_nonempty)
  have "concat (map lineWords (split_space s)) =
        lineWords (hd (split_space s)) @ concat (map lineWords (tl (split_space s)))"
    using ne by (cases "split_space s") simp_all
  then show ?thesis using lineWords_split_space_prefix[of "[]" s] by simp
qed

lemma split_space_no_space: "w \<in> set (split_space s) \<Longrightarrow> SP \<notin> set w"
proof (induction s arbitrary: w)
  case Nil
  then show ?case by simp
next
  case (Cons c s)
  have ne: "split_space s \<noteq> []" by (rule split_space_nonempty)
  show ?case
  proof (cases "c = SP")
    case True
    with Cons show ?thesis by auto
  next
    case False
    with Cons.prems have "w = c # hd (split_space s) \<or> w \<in> set (tl (split_space s))" by simp
    then show ?thesis
    proof
      assume "w = c # hd (split_space s)"
      moreover have "hd (split_space s) \<in> set (split_space s)" using ne by simp
      ultimately show ?thesis using Cons.IH False by auto
    next
      assume "w \<in> set (tl (split_space s))"
      then have "w \<in> set (split_space s)" using ne by (metis list.set_sel(2))
      then show ?thesis using Cons.IH by blast
    qed
  qed
qed

lemma split_space_subset: "w \<in> set (split_space s) \<Longrightarrow> set w \<subseteq> set s"
proof (induction s arbitrary: w)
  case Nil
  then show ?case by simp
next
  case (Cons c s)
  have ne: "split_space s \<noteq> []" by (rule split_space_nonempty)
  show ?case
  proof (cases "c = SP")
    case True
    with Cons show ?thesis by auto
  next
    case False
    with Cons.prems have "w = c # hd (split_space s) \<or> w \<in> set (tl (split_space s))" by simp
    then show ?thesis
    proof
      assume "w = c # hd (split_space s)"
      moreover have "hd (split_space s) \<in> set (split_space s)" using ne by simp
      ultimately show ?thesis using Cons.IH by auto
    next
      assume "w \<in> set (tl (split_space s))"
      then have "w \<in> set (split_space s)" using ne by (metis list.set_sel(2))
      then show ?thesis using Cons.IH by auto
    qed
  qed
qed

lemma split_ws_no_space_id: "\<forall>c\<in>set w. \<not> isSpace c \<Longrightarrow> split_ws w = [w]"
  by (induction w) simp_all

lemma lineWords_single: "\<forall>c\<in>set w. \<not> isSpace c \<Longrightarrow> lineWords w = (if w = [] then [] else [w])"
  by (simp add: lineWords_filter split_ws_no_space_id)

lemma lineWords_only_spaces:
  assumes "\<forall>c\<in>set s. isSpace c \<longrightarrow> c = SP"
  shows "lineWords s = filter (\<lambda>w. w \<noteq> []) (split_space s)"
proof -
  have each: "\<forall>w\<in>set (split_space s). lineWords w = (if w = [] then [] else [w])"
  proof
    fix w assume w: "w \<in> set (split_space s)"
    have "\<forall>c\<in>set w. \<not> isSpace c"
      using assms split_space_no_space[OF w] split_space_subset[OF w] by auto
    then show "lineWords w = (if w = [] then [] else [w])" by (rule lineWords_single)
  qed
  have "concat (map lineWords ws) = filter (\<lambda>w. w \<noteq> []) ws"
    if "\<forall>w\<in>set ws. lineWords w = (if w = [] then [] else [w])" for ws
    using that by (induction ws) simp_all
  then show ?thesis using each lineWords_split_space[of s] by simp
qed

lemma asciiUpperChar_isSpace: "isSpace (asciiUpperChar c) = isSpace c"
  by (auto simp: isSpace_def asciiUpperChar_def)

lemma asciiUpperChar_is_blank: "asciiUpperChar c = SP \<longleftrightarrow> c = SP"
  by (auto simp: asciiUpperChar_def)

lemma asciiUpperCase_only_spaces:
  assumes "\<forall>c\<in>set t. isSpace c \<longrightarrow> c = SP"
  shows "\<forall>c\<in>set (asciiUpperCase t). isSpace c \<longrightarrow> c = SP"
proof
  fix c assume "c \<in> set (asciiUpperCase t)"
  then obtain d where d: "d \<in> set t" "c = asciiUpperChar d" by (auto simp: asciiUpperCase_def)
  show "isSpace c \<longrightarrow> c = SP"
  proof
    assume "isSpace c"
    then have "isSpace d" using d(2) by (simp add: asciiUpperChar_isSpace)
    then have "d = SP" using assms d(1) by blast
    then show "c = SP" using d(2) asciiUpperChar_is_blank[of d] by blast
  qed
qed

lemmas string_eval =
  js_def isSpace_def isWordChar_def asciiUpperChar_def asciiUpperCase_def
  trim_def normalizeWord_def split_space.simps split_ws.simps Let_def lineWords_def





lemma lineWords_join_space:
  "\<forall>w\<in>set ws. w \<noteq> [] \<and> (\<forall>c\<in>set w. \<not> isSpace c) \<Longrightarrow> lineWords (join_space ws) = ws"
proof (induction ws rule: join_space.induct)
  case 1
  then show ?case by (simp add: lineWords_Nil)
next
  case (2 w)
  then show ?case by (simp add: lineWords_single)
next
  case (3 w v ws)
  have sp: "isSpace SP" by (simp add: isSpace_def)
  have "lineWords (w @ SP # join_space (v # ws)) = lineWords w @ lineWords (join_space (v # ws))"
    by (rule lineWords_append_space[OF sp])
  then show ?case using 3 by (simp add: lineWords_single)
qed

section \<open>Facts about word normalisation\<close>

lemma normalizeWord_unguarded: "normalizeWord w = asciiUpperCase (filter isWordChar (trim w))"
  by (simp add: normalizeWord_def trim_Nil asciiUpperCase_def)

lemma normalizeWord_trim: "normalizeWord (trim w) = normalizeWord w"
  by (simp add: normalizeWord_unguarded trim_idem)

lemma normalizeWord_Nil: "normalizeWord [] = []"
  by (simp add: normalizeWord_def)

lemma normalizedHighlightedWord_eq:
  "normalizedHighlightedWord quote = normalizeWord (highlightedWord quote)"
  by (simp add: normalizedHighlightedWord_def normalizeWord_trim normalizeWord_Nil)

lemma normalizeWord_blank: "trim w = [] \<Longrightarrow> normalizeWord w = []"
  by (simp add: normalizeWord_unguarded asciiUpperCase_def)

text \<open>
  Claim C4. The three spellings \<^verbatim>\<open>Don't\<close>, \<^verbatim>\<open>dont\<close> and \<^verbatim>\<open>DON'T,\<close> have the same
  normal form, \<^verbatim>\<open>DONT\<close>: the apostrophe, the trailing comma and the letter case do not
  matter. The normal form of any word is its trimmed text with every character outside
  \<^verbatim>\<open>[A-Za-z0-9_]\<close> removed, in upper case. (The first spelling is the code units
  68, 111, 110, 39, 116.)
\<close>

theorem normalize_dont_law:
  "normalizeWord (js ''Don't'') = js ''DONT'' \<and>
   normalizeWord (js ''dont'') = js ''DONT'' \<and>
   normalizeWord (js ''DON'T,'') = js ''DONT'' \<and>
   normalizeWord (js ''Don't'') = normalizeWord (js ''dont'') \<and>
   normalizeWord (js ''dont'') = normalizeWord (js ''DON'T,'') \<and>
   (\<forall>w. normalizeWord w = asciiUpperCase (filter isWordChar (trim w))) \<and>
   js ''Don't'' = [68, 111, 110, 39, 116] \<and> js ''DONT'' = [68, 79, 78, 84]"
proof -
  have a: "normalizeWord (js ''Don't'') = js ''DONT''" by (simp add: string_eval)
  have b: "normalizeWord (js ''dont'') = js ''DONT''" by (simp add: string_eval)
  have c: "normalizeWord (js ''DON'T,'') = js ''DONT''" by (simp add: string_eval)
  have d: "js ''Don't'' = [68, 111, 110, 39, 116]" "js ''DONT'' = [68, 79, 78, 84]"
    by (simp_all add: js_def)
  show ?thesis using a b c d normalizeWord_unguarded by simp
qed

section \<open>Line wrapping\<close>

lemmas layout_eval =
  layoutLines_def wrapWords_def wrapWord_def finishLines_def maxWidth_def fixedPitch_def

lemma wrapWords_Nil: "wrapWords m [] = ([], [])"
  by (simp add: wrapWords_def)

lemma wrapWords_snoc:
  "wrapWords m (ws @ [w]) = wrapWord m (wrapWords m ws) w"
  by (simp add: wrapWords_def)

lemma wrapWord_eq:
  "wrapWord m (ls, cur) w =
     (if 900 < m (cur @ w @ [SP]) \<and> cur \<noteq> [] then (ls @ [trim cur], w @ [SP])
      else (ls, cur @ w @ [SP]))"
  by (simp add: wrapWord_def maxWidth_def Let_def)

lemma wrapWords_groups:
  "\<exists>gs g. concat gs @ g = ws \<and> [] \<notin> set gs \<and>
          fst (wrapWords m ws) = map (\<lambda>g. trim (concat (map (\<lambda>w. w @ [SP]) g))) gs \<and>
          snd (wrapWords m ws) = concat (map (\<lambda>w. w @ [SP]) g) \<and>
          (g = [] \<longrightarrow> ws = [])"
proof (induction ws rule: rev_induct)
  case Nil
  have "concat [] @ [] = ([]::string list)" by simp
  then show ?case by (intro exI[of _ "[]"]) (simp add: wrapWords_Nil)
next
  case (snoc w ws)
  then obtain gs g where inv:
    "concat gs @ g = ws" "[] \<notin> set gs"
    "fst (wrapWords m ws) = map (\<lambda>g. trim (concat (map (\<lambda>w. w @ [SP]) g))) gs"
    "snd (wrapWords m ws) = concat (map (\<lambda>w. w @ [SP]) g)"
    "g = [] \<longrightarrow> ws = []" by blast
  obtain ls cur where st: "wrapWords m ws = (ls, cur)" by (cases "wrapWords m ws")
  show ?case
  proof (cases "900 < m (cur @ w @ [SP]) \<and> cur \<noteq> []")
    case True
    then have g: "g \<noteq> []" using inv(4) st by auto
    have "wrapWords m (ws @ [w]) = (ls @ [trim cur], w @ [SP])"
      using True st by (simp add: wrapWords_snoc wrapWord_eq)
    then show ?thesis using inv st g
      by (intro exI[of _ "gs @ [g]"] exI[of _ "[w]"]) simp
  next
    case False
    then have "wrapWords m (ws @ [w]) = (ls, cur @ w @ [SP])"
      using st by (simp add: wrapWords_snoc wrapWord_eq)
    then show ?thesis using inv st
      by (intro exI[of _ gs] exI[of _ "g @ [w]"]) simp
  qed
qed

lemma wrapWords_buffer_nonempty: "ws \<noteq> [] \<Longrightarrow> snd (wrapWords m ws) \<noteq> []"
proof -
  assume ne: "ws \<noteq> []"
  obtain gs g where inv:
    "snd (wrapWords m ws) = concat (map (\<lambda>w. w @ [SP]) g)" "g = [] \<longrightarrow> ws = []"
    using wrapWords_groups[of ws m] by blast
  then have "g \<noteq> []" using ne by blast
  then show ?thesis using inv(1) by (cases g) simp_all
qed

lemma finishLines_groups:
  "\<exists>gs. concat gs = ws \<and> [] \<notin> set gs \<and>
        finishLines (wrapWords m ws) = map (\<lambda>g. trim (concat (map (\<lambda>w. w @ [SP]) g))) gs"
proof -
  obtain gs g where inv:
    "concat gs @ g = ws" "[] \<notin> set gs"
    "fst (wrapWords m ws) = map (\<lambda>g. trim (concat (map (\<lambda>w. w @ [SP]) g))) gs"
    "snd (wrapWords m ws) = concat (map (\<lambda>w. w @ [SP]) g)"
    "g = [] \<longrightarrow> ws = []"
    using wrapWords_groups[of ws m] by blast
  show ?thesis
  proof (cases "g = []")
    case True
    then show ?thesis using inv
      by (intro exI[of _ gs]) (simp add: finishLines_def split_beta)
  next
    case False
    then have "snd (wrapWords m ws) \<noteq> []" using inv(4) by (cases g) simp_all
    then show ?thesis using inv False
      by (intro exI[of _ "gs @ [g]"]) (simp add: finishLines_def split_beta)
  qed
qed

lemma lineWords_joined:
  "lineWords (concat (map (\<lambda>w. w @ [SP]) g)) = concat (map lineWords g)"
proof (induction g)
  case Nil
  then show ?case by (simp add: lineWords_Nil)
next
  case (Cons w g)
  have sp: "isSpace (SP)" by (simp add: isSpace_def)
  have "lineWords (w @ SP # concat (map (\<lambda>w. w @ [SP]) g)) =
        lineWords w @ lineWords (concat (map (\<lambda>w. w @ [SP]) g))"
    by (rule lineWords_append_space[OF sp])
  then show ?case using Cons by simp
qed

lemma lineWords_finishLines:
  "concat (map lineWords (finishLines (wrapWords m ws))) = concat (map lineWords ws)"
proof -
  obtain gs where gs: "concat gs = ws"
    "finishLines (wrapWords m ws) = map (\<lambda>g. trim (concat (map (\<lambda>w. w @ [SP]) g))) gs"
    using finishLines_groups[of ws m] by blast
  have "concat (map lineWords (finishLines (wrapWords m ws))) =
        concat (map (\<lambda>g. concat (map lineWords g)) gs)"
    by (simp add: gs(2) comp_def lineWords_trim lineWords_joined)
  also have "\<dots> = concat (map lineWords (concat gs))"
    by (induction gs) simp_all
  finally show ?thesis by (simp add: gs(1))
qed

lemma layoutLines_commits_buffer:
  "layoutLines up m t =
     fst (wrapWords m (split_space (up t))) @
     [trim (snd (wrapWords m (split_space (up t))))]"
proof -
  have "snd (wrapWords m (split_space (up t))) \<noteq> []"
    by (rule wrapWords_buffer_nonempty) (rule split_space_nonempty)
  then show ?thesis by (simp add: layoutLines_def finishLines_def split_beta Let_def)
qed





lemma lineWords_layoutLines:
  "concat (map lineWords (layoutLines up m t)) = lineWords (up t)"
  by (simp add: layoutLines_def lineWords_finishLines lineWords_split_space)

text \<open>
  Claim C2. Splitting every wrapped line at white-space runs, dropping empty pieces and
  concatenating in line order gives the words of the uppercased text, split the same way:
  nothing is dropped, repeated or reordered. Where the only white space of the uppercased
  text is the space character, these are the non-empty pieces of the split at single
  spaces; with \<open>asciiUpperCase\<close> for the host function that is so where the only white
  space of the text itself is the space character. A text of one word gives exactly one
  line.
\<close>

theorem words_round_trip:
  "concat (map lineWords (layoutLines toUpper widthOf t)) = lineWords (toUpper t) \<and>
   ((\<forall>c\<in>set (toUpper t). isSpace c \<longrightarrow> c = SP) \<longrightarrow>
      concat (map lineWords (layoutLines toUpper widthOf t)) =
        filter (\<lambda>w. w \<noteq> []) (split_space (toUpper t))) \<and>
   ((\<forall>c\<in>set t. isSpace c \<longrightarrow> c = SP) \<longrightarrow>
      concat (map lineWords (layoutLines asciiUpperCase widthOf t)) =
        filter (\<lambda>w. w \<noteq> []) (split_space (asciiUpperCase t))) \<and>
   (split_space (toUpper t) = [w] \<longrightarrow>
      layoutLines toUpper widthOf t = [trim (w @ [SP])] \<and>
      length (layoutLines toUpper widthOf t) = 1)"
proof -
  have a: "concat (map lineWords (layoutLines up widthOf t)) = lineWords (up t)" for up
    by (rule lineWords_layoutLines)
  have b: "(\<forall>c\<in>set (up t). isSpace c \<longrightarrow> c = SP) \<longrightarrow>
      concat (map lineWords (layoutLines up widthOf t)) =
        filter (\<lambda>w. w \<noteq> []) (split_space (up t))" for up
    using a[of up] lineWords_only_spaces[of "up t"] by simp
  have b': "(\<forall>c\<in>set t. isSpace c \<longrightarrow> c = SP) \<longrightarrow>
      concat (map lineWords (layoutLines asciiUpperCase widthOf t)) =
        filter (\<lambda>w. w \<noteq> []) (split_space (asciiUpperCase t))"
    using b[of asciiUpperCase] asciiUpperCase_only_spaces[of t] by blast
  have c: "split_space (toUpper t) = [w] \<longrightarrow>
      layoutLines toUpper widthOf t = [trim (w @ [SP])] \<and>
      length (layoutLines toUpper widthOf t) = 1"
    by (simp add: layoutLines_def wrapWords_def wrapWord_eq finishLines_def)
  from a[of toUpper] b[of toUpper] b' c show ?thesis by blast
qed

theorem words_round_trip_witness:
  "layoutLines asciiUpperCase (fixedPitch 40 (Font ''bold'' 70 ''Arial''))
       (js ''the only  way out is through'') =
     [js ''THE ONLY  WAY OUT IS'', js ''THROUGH''] \<and>
   concat (map lineWords
       (layoutLines asciiUpperCase (fixedPitch 40 (Font ''bold'' 70 ''Arial''))
          (js ''the only  way out is through''))) =
     [js ''THE'', js ''ONLY'', js ''WAY'', js ''OUT'', js ''IS'', js ''THROUGH''] \<and>
   split_space (asciiUpperCase (js ''through'')) = [js ''THROUGH''] \<and>
   layoutLines asciiUpperCase (fixedPitch 40 (Font ''bold'' 70 ''Arial'')) (js ''through'') =
     [js ''THROUGH'']"
proof -
  let ?m = "fixedPitch 40 (Font ''bold'' 70 ''Arial'')"
  let ?t = "js ''the only  way out is through''"
  have h1: "\<forall>c\<in>set ?t. isSpace c \<longrightarrow> c = SP"
    by (simp add: isSpace_def js_def)
  have v1: "filter (\<lambda>w. w \<noteq> []) (split_space (asciiUpperCase ?t)) =
            [js ''THE'', js ''ONLY'', js ''WAY'', js ''OUT'', js ''IS'', js ''THROUGH'']"
    by (simp add: string_eval del: split_space_Cons split_ws_Cons)
  have v2: "layoutLines asciiUpperCase ?m ?t = [js ''THE ONLY  WAY OUT IS'', js ''THROUGH'']"
    by (simp add: string_eval layout_eval del: split_space_Cons split_ws_Cons)
  have h2: "split_space (asciiUpperCase (js ''through'')) = [js ''THROUGH'']"
    by (simp add: string_eval del: split_space_Cons split_ws_Cons)
  have t: "trim (js ''THROUGH'' @ [SP]) = js ''THROUGH''" by (simp add: trim_def isSpace_def js_def)
  from words_round_trip[of asciiUpperCase ?m ?t] h1
  have r1: "concat (map lineWords (layoutLines asciiUpperCase ?m ?t)) =
            filter (\<lambda>w. w \<noteq> []) (split_space (asciiUpperCase ?t))"
    by blast
  from words_round_trip[of asciiUpperCase ?m "js ''through''" "js ''THROUGH''"] h2
  have r2: "layoutLines asciiUpperCase ?m (js ''through'') = [trim (js ''THROUGH'' @ [SP])]"
    by blast
  show ?thesis using v1 v2 h2 r1 r2 t by simp
qed

section \<open>Gradient\<close>

text \<open>
  Claim C5. For a start offset in \<^verbatim>\<open>[0, 1]\<close> no \<^verbatim>\<open>addColorStop\<close> throws and the offsets
  \<^verbatim>\<open>0, start, 1\<close> are in non-decreasing order. For the bottom position the colours are
  transparent, transparent, black at alpha 0.85; for the top position black at alpha 0.85,
  transparent, transparent. Without a per-quote value the start offset is 0.5.
\<close>

theorem gradient_stops:
  assumes "0 \<le> g" and "g \<le> 1"
  shows "buildGradient Bottom 1350 g =
           Inr (LinearGradient 0 0 0 1350
                  [(0, ''rgba(0, 0, 0, 0)''), (g, ''rgba(0, 0, 0, 0)''), (1, ''rgba(0, 0, 0, 0.85)'')]) \<and>
         buildGradient Top 1350 g =
           Inr (LinearGradient 0 0 0 1350
                  [(0, ''rgba(0, 0, 0, 0.85)''), (g, ''rgba(0, 0, 0, 0)''), (1, ''rgba(0, 0, 0, 0)'')]) \<and>
         (\<exists>p. buildGradient pos 1350 g = Inr p \<and> map fst (gradientStops p) = [0, g, 1] \<and>
              sorted (map fst (gradientStops p))) \<and>
         gradientStartPosition (quote\<lparr>gradientStart := None\<rparr>) = 0.5 \<and>
         gradientStartPosition (quote\<lparr>gradientStart := Some g\<rparr>) = g"
proof -
  have b: "buildGradient Bottom 1350 g =
           Inr (LinearGradient 0 0 0 1350
                  [(0, ''rgba(0, 0, 0, 0)''), (g, ''rgba(0, 0, 0, 0)''), (1, ''rgba(0, 0, 0, 0.85)'')])"
    using assms by (simp add: buildGradient_def addColorStop_def bind_error_def)
  have t: "buildGradient Top 1350 g =
           Inr (LinearGradient 0 0 0 1350
                  [(0, ''rgba(0, 0, 0, 0.85)''), (g, ''rgba(0, 0, 0, 0)''), (1, ''rgba(0, 0, 0, 0)'')])"
    using assms by (simp add: buildGradient_def addColorStop_def bind_error_def)
  have s: "\<exists>p. buildGradient pos 1350 g = Inr p \<and> map fst (gradientStops p) = [0, g, 1] \<and>
              sorted (map fst (gradientStops p))"
    using assms b t by (cases pos) (simp_all add: gradientStops_def)
  have d: "gradientStartPosition (quote\<lparr>gradientStart := None\<rparr>) = 0.5"
          "gradientStartPosition (quote\<lparr>gradientStart := Some g\<rparr>) = g"
    by (simp_all add: gradientStartPosition_def)
  from b t s d show ?thesis by blast
qed

theorem gradient_stops_witness:
  "(0::real) \<le> 0.3 \<and> (0.3::real) \<le> 1 \<and>
   buildGradient Top 1350 0.3 =
     Inr (LinearGradient 0 0 0 1350
            [(0, ''rgba(0, 0, 0, 0.85)''), (0.3, ''rgba(0, 0, 0, 0)''), (1, ''rgba(0, 0, 0, 0)'')])"
proof -
  have h: "(0::real) \<le> 0.3" "(0.3::real) \<le> 1" by simp_all
  from gradient_stops[OF h] show ?thesis using h by blast
qed

section \<open>Cover crop\<close>

subsection \<open>Rounding\<close>

lemma powr_powi: "(2::real) powr of_int k = 2 powi k"
  by (simp add: powr_real_of_int power_int_def power_one_over inverse_eq_divide)

lemma binade_iff: "0 < x \<Longrightarrow> binade x = k \<longleftrightarrow> 2 powi k \<le> x \<and> x < 2 powi (k + 1)"
  using floor_log_eq_powr_iff[of x 2 k]
  by (simp only: binade_def powr_powi abs_of_pos)

lemma binade_eq: "0 < x \<Longrightarrow> 2 powi k \<le> x \<Longrightarrow> x < 2 powi (k + 1) \<Longrightarrow> binade x = k"
  by (simp add: binade_iff)

lemma binade_bounds: "0 < x \<Longrightarrow> 2 powi (binade x) \<le> x \<and> x < 2 powi (binade x + 1)"
  using binade_iff[of x "binade x"] by simp

lemma binade_mono: "0 < x \<Longrightarrow> x \<le> y \<Longrightarrow> binade x \<le> binade y"
  by (simp add: binade_def floor_mono)

lemma roundHalfEven_floor: "\<lfloor>r\<rfloor> \<le> roundHalfEven r" "roundHalfEven r \<le> \<lfloor>r\<rfloor> + 1"
  by (simp_all add: roundHalfEven_def Let_def)

lemma roundHalfEven_int: "roundHalfEven (of_int n) = n"
  by (simp add: roundHalfEven_def)

lemma roundHalfEven_ge: "of_int n \<le> r \<Longrightarrow> n \<le> roundHalfEven r"
  using roundHalfEven_floor(1)[of r] by (simp add: le_floor_iff[symmetric])

lemma roundHalfEven_le: "r \<le> of_int n \<Longrightarrow> roundHalfEven r \<le> n"
proof (cases "r = of_int n")
  case True
  then show ?thesis by (simp add: roundHalfEven_int)
next
  case False
  assume "r \<le> of_int n"
  with False have "r < of_int n" by simp
  then have "\<lfloor>r\<rfloor> < n" by (simp add: floor_less_iff)
  then show ?thesis using roundHalfEven_floor(2)[of r] by simp
qed

lemma binary64_scaled:
  assumes "0 < x"
  shows "binary64 x = of_int (roundHalfEven (x / 2 powi (binade x - 52))) * 2 powi (binade x - 52)"
    and "2 ^ 52 \<le> x / 2 powi (binade x - 52)"
    and "x / 2 powi (binade x - 52) < 2 ^ 53"
proof -
  have u: "(2::real) powi (binade x - 52) > 0" by simp
  have s: "(2::real) powi (binade x) = 2 ^ 52 * 2 powi (binade x - 52)"
    "(2::real) powi (binade x + 1) = 2 ^ 53 * 2 powi (binade x - 52)"
    by (simp_all add: power_int_diff power_int_add)
  show "binary64 x = of_int (roundHalfEven (x / 2 powi (binade x - 52))) * 2 powi (binade x - 52)"
    using assms by (simp add: binary64_def)
  show "2 ^ 52 \<le> x / 2 powi (binade x - 52)"
    using binade_bounds[OF assms] u unfolding s by (simp add: pos_le_divide_eq)
  show "x / 2 powi (binade x - 52) < 2 ^ 53"
    using binade_bounds[OF assms] u unfolding s by (simp add: pos_divide_less_eq)
qed

text \<open>Rounding stays inside the closed binade of its argument.\<close>

lemma binary64_binade_bounds:
  assumes "0 < x"
  shows "2 powi (binade x) \<le> binary64 x" and "binary64 x \<le> 2 powi (binade x + 1)"
proof -
  let ?u = "(2::real) powi (binade x - 52)"
  let ?r = "x / ?u"
  have u: "?u > 0" by simp
  have s: "(2::real) powi (binade x) = 2 ^ 52 * ?u" "(2::real) powi (binade x + 1) = 2 ^ 53 * ?u"
    by (simp_all add: power_int_diff power_int_add)
  have "of_int (2 ^ 52) \<le> ?r" using binary64_scaled(2)[OF assms] by simp
  then have "(2::int) ^ 52 \<le> roundHalfEven ?r" by (rule roundHalfEven_ge)
  then have "(2::real) ^ 52 \<le> of_int (roundHalfEven ?r)"
    by (metis of_int_le_iff of_int_numeral of_int_power)
  then show "2 powi (binade x) \<le> binary64 x"
    unfolding s binary64_scaled(1)[OF assms] using u by (simp only: mult_le_cancel_right_pos)
  have "?r \<le> of_int (2 ^ 53)" using binary64_scaled(3)[OF assms] by simp
  then have "roundHalfEven ?r \<le> (2::int) ^ 53" by (rule roundHalfEven_le)
  then have "of_int (roundHalfEven ?r) \<le> (2::real) ^ 53"
    by (metis of_int_le_iff of_int_numeral of_int_power)
  then show "binary64 x \<le> 2 powi (binade x + 1)"
    unfolding s binary64_scaled(1)[OF assms] using u by (simp only: mult_le_cancel_right_pos)
qed

lemma binary64_pos: "0 < x \<Longrightarrow> 0 < binary64 x"
proof -
  assume "0 < x"
  then have "2 powi (binade x) \<le> binary64 x" by (rule binary64_binade_bounds(1))
  moreover have "(0::real) < 2 powi (binade x)" by simp
  ultimately show ?thesis by linarith
qed

text \<open>A representable number below \<open>x\<close> is below the rounded \<open>x\<close>.\<close>

lemma binary64_ge:
  assumes "0 < y" and "y = of_int n * 2 powi (binade y - 52)" and "y \<le> x"
  shows "y \<le> binary64 x"
proof -
  have x: "0 < x" using assms by simp
  have le: "binade y \<le> binade x" using assms by (simp add: binade_mono)
  show ?thesis
  proof (cases "binade y = binade x")
    case True
    let ?u = "(2::real) powi (binade x - 52)"
    have u: "?u > 0" by simp
    have "of_int n * ?u \<le> x" using assms True by simp
    then have "of_int n \<le> x / ?u" using u by (simp add: pos_le_divide_eq)
    then have "n \<le> roundHalfEven (x / ?u)" by (rule roundHalfEven_ge)
    then have "of_int n * ?u \<le> of_int (roundHalfEven (x / ?u)) * ?u"
      using u by simp
    then show ?thesis using assms(2) True binary64_scaled(1)[OF x] by simp
  next
    case False
    then have "binade y + 1 \<le> binade x" using le by simp
    then have "(2::real) powi (binade y + 1) \<le> 2 powi (binade x)"
      by (simp add: power_int_increasing)
    moreover have "y < 2 powi (binade y + 1)" using binade_bounds[OF assms(1)] by simp
    ultimately show ?thesis using binary64_binade_bounds(1)[OF x] by simp
  qed
qed

lemma binary64_nonpos: "x \<le> 0 \<Longrightarrow> binary64 x \<le> 0"
proof (cases "x = 0")
  case True
  then show ?thesis by (simp add: binary64_def)
next
  case False
  assume "x \<le> 0"
  let ?u = "(2::real) powi (binade x - 52)"
  have u: "?u > 0" by simp
  have "x / ?u \<le> of_int 0" using \<open>x \<le> 0\<close> u by (simp add: divide_le_0_iff)
  then have "roundHalfEven (x / ?u) \<le> 0" by (rule roundHalfEven_le)
  then have "of_int (roundHalfEven (x / ?u)) * ?u \<le> 0"
    using u by (simp add: mult_le_0_iff)
  then show ?thesis using False by (simp add: binary64_def)
qed

text \<open>Integers below \<open>2\<^sup>5\<^sup>3\<close> in absolute value are representable.\<close>

lemma binary64_of_int:
  assumes "\<bar>m\<bar> < 2 ^ 53"
  shows "binary64 (of_int m) = of_int m"
proof (cases "m = 0")
  case True
  then show ?thesis by (simp add: binary64_def)
next
  case False
  let ?x = "of_int m :: real"
  let ?k = "binade ?x"
  have ax: "0 < \<bar>?x\<bar>" using False by simp
  have bk: "binade \<bar>?x\<bar> = ?k" by (simp add: binade_def)
  have "2 powi ?k \<le> \<bar>?x\<bar>" using binade_bounds[OF ax] bk by simp
  moreover have "\<bar>?x\<bar> < 2 ^ 53"
    using assms by (metis of_int_abs of_int_less_iff of_int_numeral of_int_power)
  ultimately have "(2::real) powi ?k < 2 powi 53" by simp
  then have k: "?k < 53" by (rule power_int_le_imp_less_exp[rotated]) simp_all
  define j where "j = nat (52 - ?k)"
  have j: "int j = 52 - ?k" using k by (simp add: j_def)
  have "(2::real) powi (?k - 52) = 2 powi (- int j)" using j by simp
  also have "\<dots> = 1 / 2 ^ j" by (simp add: power_int_minus field_simps)
  finally have u: "(2::real) powi (?k - 52) = 1 / 2 ^ j" .
  have "?x / 2 powi (?k - 52) = of_int (m * 2 ^ j)" by (simp add: u)
  then have "roundHalfEven (?x / 2 powi (?k - 52)) = m * 2 ^ j"
    by (simp only: roundHalfEven_int)
  then show ?thesis using False by (simp add: binary64_def u)
qed

lemma binary64_numeral:
  "(numeral n :: int) < 2 ^ 53 \<Longrightarrow> binary64 (numeral n) = numeral n"
  using binary64_of_int[of "numeral n"] by simp

lemma binary64_neg_numeral:
  "(numeral n :: int) < 2 ^ 53 \<Longrightarrow> binary64 (- numeral n) = - numeral n"
  using binary64_of_int[of "- numeral n"] by simp

lemma binary64_zero: "binary64 0 = 0"
  by (simp add: binary64_def)

lemmas binary64_eval = binary64_numeral binary64_neg_numeral binary64_zero

text \<open>
  The canvas aspect \<^verbatim>\<open>1080 / 1350\<close> rounds upwards, to \<open>3602879701896397 / 2\<^sup>5\<^sup>2\<close>, and
  1080 divided by that rounds to 1350.
\<close>

lemma binary64_four_fifths: "binary64 (4 / 5) = 3602879701896397 / 4503599627370496"
proof -
  have b: "binade (4 / 5) = - 1" by (rule binade_eq) (simp_all add: power_int_minus)
  show ?thesis unfolding binary64_def b
    by (simp add: power_int_minus roundHalfEven_def)
qed

lemma binary64_canvas_height:
  "binary64 (1080 / (3602879701896397 / 4503599627370496)) = 1350"
proof -
  have b: "binade (1080 / (3602879701896397 / 4503599627370496)) = 10"
    by (rule binade_eq) simp_all
  show ?thesis unfolding binary64_def b
    by (simp add: power_int_minus roundHalfEven_def)
qed

lemma binary64_near_four_fifths:
  assumes x: "0 < x" and lo: "4 / 5 < binary64 x"
    and hi: "binary64 x \<le> 3602879701896397 / 4503599627370496"
  shows "binary64 x = 3602879701896397 / 4503599627370496"
proof -
  have k: "binade x = - 1"
  proof (rule ccontr)
    assume "binade x \<noteq> - 1"
    then consider "0 \<le> binade x" | "binade x + 1 \<le> - 1" by linarith
    then show False
    proof cases
      case 1
      then have "(2::real) powi 0 \<le> 2 powi (binade x)" by (intro power_int_increasing) simp_all
      then have "1 \<le> binary64 x" using binary64_binade_bounds(1)[OF x] by simp
      then show False using hi by simp
    next
      case 2
      then have "(2::real) powi (binade x + 1) \<le> 2 powi (- 1)"
        by (intro power_int_increasing) simp_all
      then have "binary64 x \<le> 1 / 2"
        using binary64_binade_bounds(2)[OF x] by (simp add: power_int_minus)
      then show False using lo by simp
    qed
  qed
  define n where "n = roundHalfEven (x / 2 powi (binade x - 52))"
  have f: "binary64 x = of_int n / 9007199254740992"
    using binary64_scaled(1)[OF x] by (simp add: n_def k power_int_minus)
  have "4 / 5 * 9007199254740992 < (of_int n :: real)" using lo unfolding f by (simp add: field_simps)
  then have "(7205759403792793::real) < of_int n" by simp
  then have "7205759403792793 < n" by linarith
  moreover have "(of_int n :: real) \<le> 7205759403792794"
    using hi unfolding f by simp
  then have "n \<le> 7205759403792794" by linarith
  ultimately have "n = 7205759403792794" by simp
  then show ?thesis by (simp add: f)
qed

lemma binary64_ge_1080: "1080 \<le> x \<Longrightarrow> 1080 \<le> binary64 x"
proof (rule binary64_ge[where n = "1080 * 2 ^ 42"])
  have b: "binade 1080 = 10" by (rule binade_eq) simp_all
  show "(1080::real) = real_of_int (1080 * 2 ^ 42) * 2 powi (binade 1080 - 52)"
    unfolding b by (simp add: power_int_minus)
qed simp_all

lemma binary64_ge_1350: "1350 \<le> x \<Longrightarrow> 1350 \<le> binary64 x"
proof (rule binary64_ge[where n = "1350 * 2 ^ 42"])
  have b: "binade 1350 = 10" by (rule binade_eq) simp_all
  show "(1350::real) = real_of_int (1350 * 2 ^ 42) * 2 powi (binade 1350 - 52)"
    unfolding b by (simp add: power_int_minus)
qed simp_all

subsection \<open>The draw rectangle\<close>

lemmas crop_eval = fallbackCrop_def fallbackCrop_unguarded_def aspectFit_def ensureWidth_def
  ensureHeight_def Let_def

lemma canvasAspect_eq: "binary64 (1080 / 1350) = 3602879701896397 / 4503599627370496"
  using binary64_four_fifths by simp

lemma aspectFit_covers:
  assumes "0 < w" and "0 < h"
  shows "1080 \<le> drawWidth (aspectFit 1080 1350 w h)"
    and "1350 \<le> drawHeight (aspectFit 1080 1350 w h)"
proof -
  let ?f = "binary64 (w / h)"
  let ?c = "3602879701896397 / 4503599627370496 :: real"
  have x: "0 < w / h" using assms by simp
  have f: "0 < ?f" using x by (rule binary64_pos)
  show "1080 \<le> drawWidth (aspectFit 1080 1350 w h)"
  proof (cases "?f > ?c")
    case True
    then have "4 / 5 < ?f" by simp
    then have "1080 \<le> 1350 * ?f" by simp
    then have "1080 \<le> binary64 (1350 * ?f)" by (rule binary64_ge_1080)
    then show ?thesis using True unfolding aspectFit_def canvasAspect_eq by (simp add: Let_def)
  next
    case False
    then show ?thesis unfolding aspectFit_def canvasAspect_eq by (simp add: Let_def)
  qed
  show "1350 \<le> drawHeight (aspectFit 1080 1350 w h)"
  proof (cases "?f > ?c")
    case True
    then show ?thesis unfolding aspectFit_def canvasAspect_eq by (simp add: Let_def)
  next
    case False
    have "1350 \<le> binary64 (1080 / ?f)"
    proof (cases "?f \<le> 4 / 5")
      case True
      then have "1350 * ?f \<le> 1080" by simp
      then have "1350 \<le> 1080 / ?f" using f by (simp add: pos_le_divide_eq)
      then show ?thesis by (rule binary64_ge_1350)
    next
      case above: False
      then have "?f = ?c"
        using False binary64_near_four_fifths[OF x] by simp
      then have "binary64 (1080 / ?f) = 1350"
        by (simp only: binary64_canvas_height)
      then show ?thesis by simp
    qed
    then show ?thesis using False unfolding aspectFit_def canvasAspect_eq by (simp add: Let_def)
  qed
qed

lemma centred_nonpos: "canvas \<le> d \<Longrightarrow> binary64 (binary64 (canvas - d) / 2) \<le> 0"
proof -
  assume "canvas \<le> d"
  then have "binary64 (canvas - d) \<le> 0" by (intro binary64_nonpos) simp
  then show ?thesis by (intro binary64_nonpos) simp
qed

lemma guards_idle:
  assumes "0 < w" and "0 < h"
  shows "fallbackCrop 1080 1350 w h = aspectFit 1080 1350 w h"
  using aspectFit_covers[OF assms]
  by (simp add: fallbackCrop_def ensureWidth_def ensureHeight_def)

lemma aspectFit_landscape:
  "aspectFit 1080 1350 2000 1000 =
     \<lparr>drawWidth = 2700, drawHeight = 1350, offsetX = - 810, offsetY = 0\<rparr>"
  by (simp add: aspectFit_def Let_def binary64_eval binary64_four_fifths)

lemma aspectFit_canvas_sized:
  "aspectFit 1080 1350 1080 1350 =
     \<lparr>drawWidth = 1080, drawHeight = 1350, offsetX = 0, offsetY = 0\<rparr>"
proof -
  have "binary64 (1080 / binary64 (1080 / 1350)) = 1350"
    by (simp only: canvasAspect_eq binary64_canvas_height)
  then show ?thesis
    unfolding aspectFit_def Let_def by (simp add: binary64_eval)
qed

text \<open>
  Claim C7, as the code has it. For an image of positive width and height and no crop
  rectangle, the rectangle the image is drawn into is at least 1080 wide and 1350 high,
  and it is centred on the canvas: each offset is half of canvas size minus drawn size
  (as the renderer computes it), hence zero or negative.
\<close>

theorem cover_crop_offsets:
  assumes "0 < w" and "0 < h"
  shows "1080 \<le> drawWidth (fallbackCrop 1080 1350 w h) \<and>
         1350 \<le> drawHeight (fallbackCrop 1080 1350 w h) \<and>
         offsetX (fallbackCrop 1080 1350 w h) \<le> 0 \<and>
         offsetY (fallbackCrop 1080 1350 w h) \<le> 0 \<and>
         offsetX (fallbackCrop 1080 1350 w h) =
           binary64 (binary64 (1080 - drawWidth (fallbackCrop 1080 1350 w h)) / 2) \<and>
         offsetY (fallbackCrop 1080 1350 w h) =
           binary64 (binary64 (1350 - drawHeight (fallbackCrop 1080 1350 w h)) / 2)"
proof -
  have eq: "fallbackCrop 1080 1350 w h = aspectFit 1080 1350 w h"
    by (rule guards_idle[OF assms])
  have cov: "1080 \<le> drawWidth (aspectFit 1080 1350 w h)" "1350 \<le> drawHeight (aspectFit 1080 1350 w h)"
    by (rule aspectFit_covers[OF assms])+
  have ox: "offsetX (aspectFit 1080 1350 w h) =
              binary64 (binary64 (1080 - drawWidth (aspectFit 1080 1350 w h)) / 2)"
    by (simp add: aspectFit_def Let_def binary64_zero)
  have oy: "offsetY (aspectFit 1080 1350 w h) =
              binary64 (binary64 (1350 - drawHeight (aspectFit 1080 1350 w h)) / 2)"
    by (simp add: aspectFit_def Let_def binary64_zero)
  have nx: "offsetX (aspectFit 1080 1350 w h) \<le> 0"
    using centred_nonpos[OF cov(1)] ox by simp
  have ny: "offsetY (aspectFit 1080 1350 w h) \<le> 0"
    using centred_nonpos[OF cov(2)] oy by simp
  show ?thesis using cov ox oy nx ny unfolding eq by blast
qed

theorem cover_crop_offsets_witness:
  "(0::real) < 2000 \<and> (0::real) < 1000 \<and>
   drawWidth (fallbackCrop 1080 1350 2000 1000) = 2700 \<and>
   drawHeight (fallbackCrop 1080 1350 2000 1000) = 1350 \<and>
   offsetX (fallbackCrop 1080 1350 2000 1000) \<le> 0 \<and>
   offsetY (fallbackCrop 1080 1350 2000 1000) \<le> 0"
proof -
  have h: "(0::real) < 2000" "(0::real) < 1000" by simp_all
  have v: "drawWidth (fallbackCrop 1080 1350 2000 1000) = 2700"
          "drawHeight (fallbackCrop 1080 1350 2000 1000) = 1350"
    by (simp_all add: fallbackCrop_def ensureWidth_def ensureHeight_def aspectFit_landscape)
  from cover_crop_offsets[OF h] v h show ?thesis by blast
qed

text \<open>
  Claim C7 as stated asks for a non-negative centring offset. A landscape image of
  2000 by 1000 pixels is drawn 2700 wide at horizontal offset -810.
\<close>

theorem centering_offset_negative:
  "offsetX (fallbackCrop 1080 1350 2000 1000) = - 810 \<and>
   \<not> 0 \<le> offsetX (fallbackCrop 1080 1350 2000 1000)"
  by (simp add: fallbackCrop_def ensureWidth_def ensureHeight_def aspectFit_landscape)

text \<open>
  Claim C10. For an image of positive width and height the aspect-ratio branch alone
  gives a rectangle at least 1080 wide and 1350 high, so neither "ensure minimum size"
  block changes it, and the computation without the two blocks returns the same
  rectangle. This holds with binary64 rounding: an aspect above the rounded canvas aspect
  is above 4/5, and an aspect at or below it is either at most 4/5 or equal to it, and
  1080 divided by the rounded canvas aspect rounds to 1350. The witness is the image
  with the canvas's own size, where that last rounding decides.
\<close>

theorem cover_guards_redundant:
  assumes "0 < w" and "0 < h"
  shows "1080 \<le> drawWidth (aspectFit 1080 1350 w h) \<and>
         1350 \<le> drawHeight (aspectFit 1080 1350 w h) \<and>
         ensureWidth 1080 1350 (binary64 (w / h)) (aspectFit 1080 1350 w h) =
           aspectFit 1080 1350 w h \<and>
         ensureHeight 1080 1350 (binary64 (w / h)) (aspectFit 1080 1350 w h) =
           aspectFit 1080 1350 w h \<and>
         fallbackCrop_unguarded 1080 1350 w h = fallbackCrop 1080 1350 w h"
proof -
  have cov: "1080 \<le> drawWidth (aspectFit 1080 1350 w h)" "1350 \<le> drawHeight (aspectFit 1080 1350 w h)"
    by (rule aspectFit_covers[OF assms])+
  then show ?thesis
    by (simp add: fallbackCrop_def fallbackCrop_unguarded_def ensureWidth_def ensureHeight_def)
qed

theorem cover_guards_redundant_witness:
  "(0::real) < 1080 \<and> (0::real) < 1350 \<and>
   fallbackCrop_unguarded 1080 1350 1080 1350 = fallbackCrop 1080 1350 1080 1350 \<and>
   fallbackCrop 1080 1350 1080 1350 =
     \<lparr>drawWidth = 1080, drawHeight = 1350, offsetX = 0, offsetY = 0\<rparr>"
proof -
  have h: "(0::real) < 1080" "(0::real) < 1350" by simp_all
  have v: "fallbackCrop_unguarded 1080 1350 1080 1350 =
             \<lparr>drawWidth = 1080, drawHeight = 1350, offsetX = 0, offsetY = 0\<rparr>"
    by (simp add: fallbackCrop_unguarded_def aspectFit_canvas_sized)
  from cover_guards_redundant[OF h] v h show ?thesis by simp
qed

section \<open>Numbers of the text pass\<close>

text \<open>
  Rounding at a known exponent, the distance between a number and its rounding, and the
  rounded values that the concrete runs below go through: the literals 1.3 and 1.57, and
  the line heights and start positions for the font sizes 70 and 72.
\<close>

lemma binary64_at:
  assumes "0 < x" and "2 powi k \<le> x" and "x < 2 powi (k + 1)"
  shows "binary64 x = of_int (roundHalfEven (x / 2 powi (k - 52))) * 2 powi (k - 52)"
proof -
  have "binade x = k" using assms by (rule binade_eq)
  then show ?thesis using assms(1) by (simp add: binary64_def)
qed

lemma binary64_literal_1_3: "binary64 1.3 = 5854679515581645 / 4503599627370496"
  by (subst binary64_at[where k = 0]) (simp_all add: power_int_minus roundHalfEven_def)


lemma lineHeight_70: "lineHeight 70 = 91"
proof -
  have "binary64 (70 * (5854679515581645 / 4503599627370496)) = 91"
    by (subst binary64_at[where k = 6]) (simp_all add: power_int_minus roundHalfEven_def)
  then show ?thesis by (simp only: lineHeight_def binary64_literal_1_3)
qed

lemma lineHeight_72: "lineHeight 72 = 6586514455029351 / 70368744177664"
proof -
  have "binary64 (72 * (5854679515581645 / 4503599627370496)) = 6586514455029351 / 70368744177664"
    by (subst binary64_at[where k = 6]) (simp_all add: power_int_minus roundHalfEven_def)
  then show ?thesis by (simp only: lineHeight_def binary64_literal_1_3)
qed


lemma startY_Bottom_72:
  "startY Bottom 1350 (6586514455029351 / 70368744177664) 2 = 4234439180890931 / 4398046511104"
proof -
  have t: "binary64 (real 2 * (6586514455029351 / 70368744177664)) = 6586514455029351 / 35184372088832"
    by (subst binary64_at[where k = 7]) (simp_all add: power_int_minus roundHalfEven_def)
  have c: "binary64 (1350 - 200) = 1150" by (simp add: binary64_eval)
  have s: "binary64 (1150 - 6586514455029351 / 35184372088832) = 4234439180890931 / 4398046511104"
    by (subst binary64_at[where k = 9]) (simp_all add: power_int_minus roundHalfEven_def)
  show ?thesis by (simp only: startY_def bottomPadding_def Let_def t c s textPos.simps if_False)
qed

lemma startY_Top_72:
  "startY Top 1350 (6586514455029351 / 70368744177664) n = 4341751515761869 / 17592186044416"
proof -
  have h: "binary64 (6586514455029351 / 70368744177664 / 2) = 6586514455029351 / 140737488355328"
    by (subst binary64_at[where k = 5]) (simp_all add: power_int_minus roundHalfEven_def)
  have "binary64 (200 + 6586514455029351 / 140737488355328) = 4341751515761869 / 17592186044416"
    by (subst binary64_at[where k = 7]) (simp_all add: power_int_minus roundHalfEven_def)
  then show ?thesis by (simp only: startY_def topPadding_def h Let_def simp_thms if_True)
qed


lemma roundHalfEven_near: "\<bar>of_int (roundHalfEven r) - r\<bar> \<le> 1 / 2"
proof -
  have "of_int \<lfloor>r\<rfloor> \<le> r" "r < of_int \<lfloor>r\<rfloor> + 1" by linarith+
  then show ?thesis by (auto simp: roundHalfEven_def Let_def)
qed

lemma binary64_error:
  assumes "0 < x"
  shows "\<bar>binary64 x - x\<bar> \<le> 2 powi (binade x - 53)"
proof -
  let ?u = "(2::real) powi (binade x - 52)"
  have u: "0 < ?u" by simp
  have h: "(2::real) powi (binade x - 53) = ?u / 2" by (simp add: power_int_diff)
  have "binary64 x - x = (of_int (roundHalfEven (x / ?u)) - x / ?u) * ?u"
    using binary64_scaled(1)[OF assms] u by (simp add: field_simps)
  then have "\<bar>binary64 x - x\<bar> = \<bar>of_int (roundHalfEven (x / ?u)) - x / ?u\<bar> * ?u"
    using u by (simp add: abs_mult)
  also have "\<dots> \<le> 1 / 2 * ?u"
    using roundHalfEven_near[of "x / ?u"] u by (intro mult_right_mono) simp_all
  finally show ?thesis unfolding h by simp
qed

lemma binade_less: "0 < x \<Longrightarrow> x < 2 powi k \<Longrightarrow> binade x < k"
proof -
  assume x: "0 < x" and "x < 2 powi k"
  then have lt: "(2::real) powi (binade x) < 2 powi k" using binade_bounds[OF x] by simp
  show ?thesis
  proof (rule ccontr)
    assume "\<not> binade x < k"
    then have "(2::real) powi k \<le> 2 powi (binade x)" by (intro power_int_increasing) simp_all
    with lt show False by simp
  qed
qed

lemma lineHeight_near:
  assumes "0 < efs" and "efs \<le> 512"
  shows "\<bar>lineHeight efs - efs * 1.3\<bar> \<le> 1 / 2 ^ 43"
proof -
  let ?c = "5854679515581645 / 4503599627370496 :: real"
  have lh: "lineHeight efs = binary64 (efs * ?c)"
    by (simp only: lineHeight_def binary64_literal_1_3)
  have pos: "0 < efs * ?c" using assms by simp
  have "efs * ?c \<le> 512 * ?c" using assms by simp
  also have "\<dots> < 2 powi 10" by simp
  finally have "binade (efs * ?c) < 10" using pos by (intro binade_less)
  then have "binade (efs * ?c) - 53 \<le> - 44" by simp
  then have "(2::real) powi (binade (efs * ?c) - 53) \<le> 2 powi (- 44)"
    by (intro power_int_increasing) simp_all
  then have e1: "\<bar>binary64 (efs * ?c) - efs * ?c\<bar> \<le> 1 / 2 ^ 44"
    using binary64_error[OF pos] by (simp add: power_int_minus field_simps)
  have "\<bar>efs * ?c - efs * 1.3\<bar> = efs * \<bar>?c - 1.3\<bar>"
    using assms by (simp add: abs_mult flip: right_diff_distrib)
  also have "\<dots> \<le> 512 * \<bar>?c - 1.3\<bar>" using assms by (intro mult_right_mono) simp_all
  also have "\<dots> \<le> 1 / 2 ^ 45" by simp
  finally have e2: "\<bar>efs * ?c - efs * 1.3\<bar> \<le> 1 / 2 ^ 45" .
  have "\<bar>lineHeight efs - efs * 1.3\<bar> \<le> \<bar>binary64 (efs * ?c) - efs * ?c\<bar> + \<bar>efs * ?c - efs * 1.3\<bar>"
    unfolding lh by linarith
  also have "\<dots> \<le> 1 / 2 ^ 44 + 1 / 2 ^ 45" using e1 e2 by linarith
  also have "\<dots> \<le> 1 / 2 ^ 43" by simp
  finally show ?thesis .
qed

lemma lineHeight_72_inexact: "lineHeight 72 \<noteq> 72 * 1.3"
  by (simp add: lineHeight_72)

section \<open>The drawing list of the text pass\<close>

lemmas sample_eval = sampleQuote_def sampleSettings_def blankCanvas_def usedCanvas_def
  noContextCanvas_def

lemma textCalls_append: "textCalls (a @ b) = textCalls a @ textCalls b"
  by (simp add: textCalls_def map_filter_def)

lemma textCalls_FillText: "textCalls [FillText s x y f p a b] = [(s, x, y, p)]"
  by (simp add: textCalls_def map_filter_def textCall_def)

lemma placed_snoc: "placed (ds @ [FillText s x y f p a b]) = placed ds @ [(s, y)]"
  by (simp add: placed_def textCalls_append textCalls_FillText)

lemma painted_snoc: "painted (ds @ [FillText s x y f p a b]) = painted ds @ [(s, p)]"
  by (simp add: painted_def textCalls_append textCalls_FillText)

lemma drawWord_log:
  "drawn (fst (drawWord m hc nh y (c, x) w)) =
     drawn c @ [FillText w x y (font c)
        (if shouldHighlight nh (normalizeWord w) then Color hc else Color ''#ffffff'')
        ''left'' (textBaseline c)]"
  by (simp add: drawWord_def fillText_def Let_def)

lemma drawWord_frame:
  "has2d (fst (drawWord m hc nh y (c, x) w)) = has2d c"
  "font (fst (drawWord m hc nh y (c, x) w)) = font c"
  "textBaseline (fst (drawWord m hc nh y (c, x) w)) = textBaseline c"
  "canvas_width (fst (drawWord m hc nh y (c, x) w)) = canvas_width c"
  "canvas_height (fst (drawWord m hc nh y (c, x) w)) = canvas_height c"
  by (simp_all add: drawWord_def fillText_def Let_def)

lemma drawWords_placed:
  "placed (drawn (fst (foldl (drawWord m hc nh y) (c, x) ws))) =
     placed (drawn c) @ map (\<lambda>w. (w, y)) ws"
proof (induction ws arbitrary: c x)
  case Nil
  then show ?case by simp
next
  case (Cons w ws)
  obtain c1 x1 where st: "drawWord m hc nh y (c, x) w = (c1, x1)"
    by (cases "drawWord m hc nh y (c, x) w")
  have "placed (drawn c1) = placed (drawn c) @ [(w, y)]"
    using drawWord_log[of m hc nh y c x w] st by (simp add: placed_snoc)
  then show ?case using Cons.IH[of c1 x1] st by simp
qed

lemma drawWords_painted:
  "painted (drawn (fst (foldl (drawWord m hc nh y) (c, x) ws))) =
     painted (drawn c) @
     map (\<lambda>w. (w, if shouldHighlight nh (normalizeWord w) then Color hc else Color ''#ffffff'')) ws"
proof (induction ws arbitrary: c x)
  case Nil
  then show ?case by simp
next
  case (Cons w ws)
  obtain c1 x1 where st: "drawWord m hc nh y (c, x) w = (c1, x1)"
    by (cases "drawWord m hc nh y (c, x) w")
  have "painted (drawn c1) = painted (drawn c) @
          [(w, if shouldHighlight nh (normalizeWord w) then Color hc else Color ''#ffffff'')]"
    using drawWord_log[of m hc nh y c x w] st by (simp add: painted_snoc)
  then show ?case using Cons.IH[of c1 x1] st by simp
qed

lemma drawWords_frame:
  "has2d (fst (foldl (drawWord m hc nh y) (c, x) ws)) = has2d c \<and>
   font (fst (foldl (drawWord m hc nh y) (c, x) ws)) = font c \<and>
   textBaseline (fst (foldl (drawWord m hc nh y) (c, x) ws)) = textBaseline c \<and>
   canvas_width (fst (foldl (drawWord m hc nh y) (c, x) ws)) = canvas_width c \<and>
   canvas_height (fst (foldl (drawWord m hc nh y) (c, x) ws)) = canvas_height c"
proof (induction ws arbitrary: c x)
  case Nil
  then show ?case by simp
next
  case (Cons w ws)
  obtain c1 x1 where st: "drawWord m hc nh y (c, x) w = (c1, x1)"
    by (cases "drawWord m hc nh y (c, x) w")
  have "has2d c1 = has2d c" "font c1 = font c" "textBaseline c1 = textBaseline c"
    "canvas_width c1 = canvas_width c" "canvas_height c1 = canvas_height c"
    using drawWord_frame[of m hc nh y c x w] st by simp_all
  then show ?case using Cons.IH[of c1 x1] st by simp
qed

lemma drawLine_placed:
  "placed (drawn (drawLine m hc nh cx sY lh c (l, i))) =
     placed (drawn c) @ map (\<lambda>w. (w, binary64 (sY + binary64 (real i * lh)))) (lineWords l)"
  by (simp add: drawLine_def Let_def drawWords_placed)

lemma drawLine_painted:
  "painted (drawn (drawLine m hc nh cx sY lh c (l, i))) =
     painted (drawn c) @
     map (\<lambda>w. (w, if shouldHighlight nh (normalizeWord w) then Color hc else Color ''#ffffff''))
       (lineWords l)"
  by (simp add: drawLine_def Let_def drawWords_painted)

lemma drawLine_frame:
  "has2d (drawLine m hc nh cx sY lh c e) = has2d c \<and>
   font (drawLine m hc nh cx sY lh c e) = font c \<and>
   textBaseline (drawLine m hc nh cx sY lh c e) = textBaseline c \<and>
   canvas_width (drawLine m hc nh cx sY lh c e) = canvas_width c \<and>
   canvas_height (drawLine m hc nh cx sY lh c e) = canvas_height c"
  by (cases e) (simp add: drawLine_def Let_def drawWords_frame)

lemma drawLines_snoc:
  "drawLines m hc nh cx sY lh (ls @ [l]) c =
   drawLine m hc nh cx sY lh (drawLines m hc nh cx sY lh ls c) (l, length ls)"
  by (simp add: drawLines_def)

lemma drawLines_placed:
  "placed (drawn (drawLines m hc nh cx sY lh ls c)) =
     placed (drawn c) @
     concat (map (\<lambda>(l, i). map (\<lambda>w. (w, binary64 (sY + binary64 (real i * lh)))) (lineWords l))
               (zip ls [0 ..< length ls]))"
proof (induction ls rule: rev_induct)
  case Nil
  then show ?case by (simp add: drawLines_def)
next
  case (snoc l ls)
  then show ?case by (simp add: drawLines_snoc drawLine_placed)
qed

lemma drawLines_painted:
  "painted (drawn (drawLines m hc nh cx sY lh ls c)) =
     painted (drawn c) @
     map (\<lambda>w. (w, if shouldHighlight nh (normalizeWord w) then Color hc else Color ''#ffffff''))
       (concat (map lineWords ls))"
proof (induction ls rule: rev_induct)
  case Nil
  then show ?case by (simp add: drawLines_def)
next
  case (snoc l ls)
  then show ?case by (simp add: drawLines_snoc drawLine_painted)
qed

lemma drawLines_frame:
  "has2d (drawLines m hc nh cx sY lh ls c) = has2d c \<and>
   font (drawLines m hc nh cx sY lh ls c) = font c \<and>
   textBaseline (drawLines m hc nh cx sY lh ls c) = textBaseline c \<and>
   canvas_width (drawLines m hc nh cx sY lh ls c) = canvas_width c \<and>
   canvas_height (drawLines m hc nh cx sY lh ls c) = canvas_height c"
proof (induction ls rule: rev_induct)
  case Nil
  then show ?case by (simp add: drawLines_def)
next
  case (snoc l ls)
  then show ?case by (simp add: drawLines_snoc drawLine_frame)
qed

lemma layoutLines_nonempty: "layoutLines up m t \<noteq> []"
  by (simp add: layoutLines_commits_buffer)

lemma drawOpeningQuote_log:
  assumes "lines \<noteq> []"
  shows "drawn (drawOpeningQuote m efs cx sY lines c) =
           drawn c @ [FillText openingQuote
                        (binary64 (binary64 (binary64 (cx - binary64 (m (font c) (hd lines) / 2)) - 16)
                           - m (quoteMarkFont (binary64 (efs * binary64 1.57))) openingQuote))
                        sY (quoteMarkFont (binary64 (efs * binary64 1.57))) (Color ''#ffffff'')
                        ''left'' (textBaseline c)]"
    and "has2d (drawOpeningQuote m efs cx sY lines c) = has2d c"
    and "textBaseline (drawOpeningQuote m efs cx sY lines c) = textBaseline c"
    and "canvas_width (drawOpeningQuote m efs cx sY lines c) = canvas_width c"
    and "canvas_height (drawOpeningQuote m efs cx sY lines c) = canvas_height c"
  using assms by (cases lines; simp add: drawOpeningQuote_def fillText_def Let_def)+

lemma drawArtistName_log:
  "drawn (drawArtistName up st pos cx c) =
     drawn c @ [FillText (up (artistName st)) cx (binary64 (canvas_height c - 100)) captionFont
                  (Color ''#ffffff'') ''center'' (textBaseline c)]"
  "has2d (drawArtistName up st pos cx c) = has2d c"
  by (simp_all add: drawArtistName_def fillText_def Let_def)

lemma drawText_log:
  "\<exists>c3. drawn c3 =
          drawn c @ [FillText openingQuote
            (binary64 (binary64 (binary64 (binary64 (canvas_width c / 2)
               - binary64 (measureText (bodyFont st quote)
                   (hd (layoutLines up (measureText (bodyFont st quote)) (quote_text quote))) / 2))
               - 16)
               - measureText (quoteMarkFont (binary64 (effectiveFontSize st quote * binary64 1.57)))
                   openingQuote))
            (startY (textPosition quote) (canvas_height c) (lineHeight (effectiveFontSize st quote))
               (length (layoutLines up (measureText (bodyFont st quote)) (quote_text quote))))
            (quoteMarkFont (binary64 (effectiveFontSize st quote * binary64 1.57)))
            (Color ''#ffffff'') ''left'' ''middle''] \<and>
        font c3 = bodyFont st quote \<and>
        drawn (drawText up measureText st quote c) =
          drawn (drawLines measureText (highlightColor st) (normalizedHighlightedWord quote)
                   (binary64 (canvas_width c / 2))
                   (startY (textPosition quote) (canvas_height c) (lineHeight (effectiveFontSize st quote))
                      (length (layoutLines up (measureText (bodyFont st quote)) (quote_text quote))))
                   (lineHeight (effectiveFontSize st quote))
                   (layoutLines up (measureText (bodyFont st quote)) (quote_text quote)) c3)
          @ [FillText (up (artistName st)) (binary64 (canvas_width c / 2))
               (binary64 (canvas_height c - 100))
               captionFont (Color ''#ffffff'') ''center'' ''middle'']"
proof -
  let ?efs = "effectiveFontSize st quote"
  let ?cx = "binary64 (canvas_width c / 2)"
  let ?lines = "layoutLines up (measureText (bodyFont st quote)) (quote_text quote)"
  let ?sY = "startY (textPosition quote) (canvas_height c) (lineHeight ?efs) (length ?lines)"
  let ?c1 = "c\<lparr>font := bodyFont st quote, textAlign := ''center'', textBaseline := ''middle''\<rparr>"
  let ?c2 = "drawOpeningQuote measureText ?efs ?cx ?sY ?lines ?c1"
  let ?c3 = "?c2\<lparr>font := bodyFont st quote, textAlign := ''center''\<rparr>"
  let ?c4 = "drawLines measureText (highlightColor st) (normalizedHighlightedWord quote)
               ?cx ?sY (lineHeight ?efs) ?lines ?c3"
  have ne: "?lines \<noteq> []" by (rule layoutLines_nonempty)
  have d3: "drawn ?c3 = drawn c @ [FillText openingQuote
            (binary64 (binary64 (binary64 (?cx
               - binary64 (measureText (bodyFont st quote) (hd ?lines) / 2)) - 16)
               - measureText (quoteMarkFont (binary64 (?efs * binary64 1.57))) openingQuote))
            ?sY (quoteMarkFont (binary64 (?efs * binary64 1.57))) (Color ''#ffffff'') ''left'' ''middle'']"
    using drawOpeningQuote_log(1)[OF ne, of measureText ?efs ?cx ?sY ?c1] by simp
  have f3: "font ?c3 = bodyFont st quote" by simp
  have b4: "textBaseline ?c4 = ''middle''" "canvas_height ?c4 = canvas_height c"
    using drawOpeningQuote_log(3,5)[OF ne, of measureText ?efs ?cx ?sY ?c1]
    by (simp_all add: drawLines_frame)
  have "drawText up measureText st quote c = drawArtistName up st (textPosition quote) ?cx ?c4"
    by (simp add: drawText_def Let_def)
  then have "drawn (drawText up measureText st quote c) =
     drawn ?c4 @ [FillText (up (artistName st)) ?cx (binary64 (canvas_height c - 100))
               captionFont (Color ''#ffffff'') ''center'' ''middle'']"
    using b4 by (simp add: drawArtistName_log)
  with d3 f3 show ?thesis by blast
qed

lemma drawText_placed:
  "placed (drawn (drawText up measureText st quote c)) =
     placed (drawn c) @
     [(openingQuote,
       startY (textPosition quote) (canvas_height c) (lineHeight (effectiveFontSize st quote))
         (length (layoutLines up (measureText (bodyFont st quote)) (quote_text quote))))] @
     concat (map (\<lambda>(l, i). map (\<lambda>w. (w,
         binary64 (startY (textPosition quote) (canvas_height c) (lineHeight (effectiveFontSize st quote))
                     (length (layoutLines up (measureText (bodyFont st quote)) (quote_text quote)))
                   + binary64 (real i * lineHeight (effectiveFontSize st quote))))) (lineWords l))
       (zip (layoutLines up (measureText (bodyFont st quote)) (quote_text quote))
            [0 ..< length (layoutLines up (measureText (bodyFont st quote)) (quote_text quote))])) @
     [(up (artistName st), binary64 (canvas_height c - 100))]"
proof -
  obtain c3 q where c3:
    "drawn c3 = drawn c @ [FillText openingQuote q
        (startY (textPosition quote) (canvas_height c) (lineHeight (effectiveFontSize st quote))
           (length (layoutLines up (measureText (bodyFont st quote)) (quote_text quote))))
        (quoteMarkFont (binary64 (effectiveFontSize st quote * binary64 1.57)))
        (Color ''#ffffff'') ''left'' ''middle'']"
    "drawn (drawText up measureText st quote c) =
          drawn (drawLines measureText (highlightColor st) (normalizedHighlightedWord quote)
                   (binary64 (canvas_width c / 2))
                   (startY (textPosition quote) (canvas_height c) (lineHeight (effectiveFontSize st quote))
                      (length (layoutLines up (measureText (bodyFont st quote)) (quote_text quote))))
                   (lineHeight (effectiveFontSize st quote))
                   (layoutLines up (measureText (bodyFont st quote)) (quote_text quote)) c3)
          @ [FillText (up (artistName st)) (binary64 (canvas_width c / 2))
               (binary64 (canvas_height c - 100))
               captionFont (Color ''#ffffff'') ''center'' ''middle'']"
    using drawText_log[of c measureText st quote up] by blast
  show ?thesis
    unfolding c3(2) placed_snoc drawLines_placed c3(1) by simp
qed

lemma drawText_painted:
  "painted (drawn (drawText up measureText st quote c)) =
     painted (drawn c) @
     [(openingQuote, Color ''#ffffff'')] @
     map (\<lambda>w. (w, if shouldHighlight (normalizedHighlightedWord quote) (normalizeWord w)
                   then Color (highlightColor st) else Color ''#ffffff''))
       (lineWords (up (quote_text quote))) @
     [(up (artistName st), Color ''#ffffff'')]"
proof -
  obtain c3 q where c3:
    "drawn c3 = drawn c @ [FillText openingQuote q
        (startY (textPosition quote) (canvas_height c) (lineHeight (effectiveFontSize st quote))
           (length (layoutLines up (measureText (bodyFont st quote)) (quote_text quote))))
        (quoteMarkFont (binary64 (effectiveFontSize st quote * binary64 1.57)))
        (Color ''#ffffff'') ''left'' ''middle'']"
    "drawn (drawText up measureText st quote c) =
          drawn (drawLines measureText (highlightColor st) (normalizedHighlightedWord quote)
                   (binary64 (canvas_width c / 2))
                   (startY (textPosition quote) (canvas_height c) (lineHeight (effectiveFontSize st quote))
                      (length (layoutLines up (measureText (bodyFont st quote)) (quote_text quote))))
                   (lineHeight (effectiveFontSize st quote))
                   (layoutLines up (measureText (bodyFont st quote)) (quote_text quote)) c3)
          @ [FillText (up (artistName st)) (binary64 (canvas_width c / 2))
               (binary64 (canvas_height c - 100))
               captionFont (Color ''#ffffff'') ''center'' ''middle'']"
    using drawText_log[of c measureText st quote up] by blast
  show ?thesis
    unfolding c3(2) painted_snoc drawLines_painted c3(1) lineWords_layoutLines by simp
qed

section \<open>Highlighting\<close>

text \<open>
  Claim C3. A word of a wrapped line is drawn in the highlight colour exactly when its
  normal form and the normal form of the configured \<^verbatim>\<open>highlightedWord\<close> are both
  non-empty and equal; otherwise it is drawn white. The normal form of a string is its
  trimmed text with every character outside \<^verbatim>\<open>[A-Za-z0-9_]\<close> removed, in upper case (the
  extra \<^verbatim>\<open>trim\<close> the renderer applies to the setting changes nothing). The words of a
  text are its maximal runs of characters other than white space: a text that joins
  non-empty words free of white space with single spaces has exactly these words. The
  text pass draws the quotation mark in white, then every word of the uppercased text in
  the colour so decided, then the caption in white. An empty or white-space-only setting
  highlights no word.
\<close>

theorem highlight_decision:
  "(shouldHighlight (normalizedHighlightedWord quote) (normalizeWord lineWord) \<longleftrightarrow>
      normalizeWord lineWord \<noteq> [] \<and> normalizeWord (highlightedWord quote) \<noteq> [] \<and>
      normalizeWord lineWord = normalizeWord (highlightedWord quote)) \<and>
   (\<forall>w. normalizeWord w = asciiUpperCase (filter isWordChar (trim w))) \<and>
   ((\<forall>w\<in>set ws. w \<noteq> [] \<and> (\<forall>c\<in>set w. \<not> isSpace c)) \<longrightarrow>
      lineWords (join_space ws) = ws) \<and>
   drawn (fst (drawWord measureText highlight (normalizedHighlightedWord quote) y (c, lineX) lineWord)) =
     drawn c @
     [FillText lineWord lineX y (font c)
        (if normalizeWord lineWord \<noteq> [] \<and> normalizeWord (highlightedWord quote) \<noteq> [] \<and>
            normalizeWord lineWord = normalizeWord (highlightedWord quote)
         then Color highlight else Color ''#ffffff'')
        ''left'' (textBaseline c)] \<and>
   painted (drawn (drawText toUpper measureText st quote c)) =
     painted (drawn c) @
     [(openingQuote, Color ''#ffffff'')] @
     map (\<lambda>w. (w, if normalizeWord w \<noteq> [] \<and> normalizeWord (highlightedWord quote) \<noteq> [] \<and>
                      normalizeWord w = normalizeWord (highlightedWord quote)
                   then Color (highlightColor st) else Color ''#ffffff''))
       (lineWords (toUpper (quote_text quote))) @
     [(toUpper (artistName st), Color ''#ffffff'')] \<and>
   (trim (highlightedWord quote) = [] \<longrightarrow>
      \<not> shouldHighlight (normalizedHighlightedWord quote) (normalizeWord lineWord))"
proof -
  have a: "shouldHighlight (normalizedHighlightedWord quote) (normalizeWord w) \<longleftrightarrow>
      normalizeWord w \<noteq> [] \<and> normalizeWord (highlightedWord quote) \<noteq> [] \<and>
      normalizeWord w = normalizeWord (highlightedWord quote)" for w
    by (auto simp: shouldHighlight_def normalizedHighlightedWord_eq)
  have n: "\<forall>w. normalizeWord w = asciiUpperCase (filter isWordChar (trim w))"
    using normalizeWord_unguarded by blast
  have b: "drawn (fst (drawWord measureText highlight (normalizedHighlightedWord quote) y (c, lineX) lineWord)) =
     drawn c @
     [FillText lineWord lineX y (font c)
        (if normalizeWord lineWord \<noteq> [] \<and> normalizeWord (highlightedWord quote) \<noteq> [] \<and>
            normalizeWord lineWord = normalizeWord (highlightedWord quote)
         then Color highlight else Color ''#ffffff'')
        ''left'' (textBaseline c)]"
    unfolding drawWord_log a by (rule refl)
  have p: "painted (drawn (drawText toUpper measureText st quote c)) =
     painted (drawn c) @
     [(openingQuote, Color ''#ffffff'')] @
     map (\<lambda>w. (w, if normalizeWord w \<noteq> [] \<and> normalizeWord (highlightedWord quote) \<noteq> [] \<and>
                      normalizeWord w = normalizeWord (highlightedWord quote)
                   then Color (highlightColor st) else Color ''#ffffff''))
       (lineWords (toUpper (quote_text quote))) @
     [(toUpper (artistName st), Color ''#ffffff'')]"
    unfolding drawText_painted a by (rule refl)
  have c: "trim (highlightedWord quote) = [] \<longrightarrow>
      \<not> shouldHighlight (normalizedHighlightedWord quote) (normalizeWord lineWord)"
    by (simp add: shouldHighlight_def normalizedHighlightedWord_eq normalizeWord_blank)
  have l: "(\<forall>w\<in>set ws. w \<noteq> [] \<and> (\<forall>c\<in>set w. \<not> isSpace c)) \<longrightarrow>
      lineWords (join_space ws) = ws"
    using lineWords_join_space by blast
  from a[of lineWord] n l b p c show ?thesis by blast
qed

theorem highlight_decision_witness:
  "normalizeWord (js ''THROUGH!'') = js ''THROUGH'' \<and>
   normalizeWord (js '' Through '') = js ''THROUGH'' \<and>
   shouldHighlight
     (normalizedHighlightedWord
        (sampleQuote\<lparr>quote_text := js ''the only way out is through!'',
                     highlightedWord := js '' Through ''\<rparr>))
     (normalizeWord (js ''THROUGH!'')) \<and>
   painted (drawn (drawText asciiUpperCase (fixedPitch 40) sampleSettings
                     (sampleQuote\<lparr>quote_text := js ''the only way out is through!'',
                                  highlightedWord := js '' Through ''\<rparr>)
                     (setCanvasSize blankCanvas 1080 1350))) =
     [(openingQuote, Color ''#ffffff''),
      (js ''THE'', Color ''#ffffff''),
      (js ''ONLY'', Color ''#ffffff''),
      (js ''WAY'', Color ''#ffffff''),
      (js ''OUT'', Color ''#ffffff''),
      (js ''IS'', Color ''#ffffff''),
      (js ''THROUGH!'', Color ''#FF8C00''),
      (js ''RUMI'', Color ''#ffffff'')] \<and>
   trim (highlightedWord (sampleQuote\<lparr>highlightedWord := js ''  ''\<rparr>)) = [] \<and>
   \<not> shouldHighlight (normalizedHighlightedWord (sampleQuote\<lparr>highlightedWord := js ''  ''\<rparr>))
      (normalizeWord (js ''THROUGH''))"
proof -
  let ?q = "sampleQuote\<lparr>quote_text := js ''the only way out is through!'',
                        highlightedWord := js '' Through ''\<rparr>"
  let ?b = "sampleQuote\<lparr>highlightedWord := js ''  ''\<rparr>"
  let ?c = "setCanvasSize blankCanvas 1080 1350"
  have n1: "normalizeWord (js ''THROUGH!'') = js ''THROUGH''"
    and n2: "normalizeWord (js '' Through '') = js ''THROUGH''"
    by (simp_all add: string_eval)
  have hw: "highlightedWord ?q = js '' Through ''" by (simp add: sample_eval)
  have ne: "js ''THROUGH'' \<noteq> []" by (simp add: js_def)
  from highlight_decision[where quote = "?q" and lineWord = "js ''THROUGH!''"] n1 n2 hw ne
  have pos: "shouldHighlight (normalizedHighlightedWord ?q) (normalizeWord (js ''THROUGH!''))"
    by simp
  have up: "asciiUpperCase (quote_text ?q) =
              join_space [js ''THE'', js ''ONLY'', js ''WAY'', js ''OUT'', js ''IS'', js ''THROUGH!'']"
    by (simp add: sample_eval asciiUpperCase_def asciiUpperChar_def js_def)
  have gd: "\<forall>w\<in>set [js ''THE'', js ''ONLY'', js ''WAY'', js ''OUT'', js ''IS'', js ''THROUGH!''].
              w \<noteq> [] \<and> (\<forall>c\<in>set w. \<not> isSpace c)"
    by (simp add: js_def isSpace_def)
  from highlight_decision[where
      ws = "[js ''THE'', js ''ONLY'', js ''WAY'', js ''OUT'', js ''IS'', js ''THROUGH!'']"] gd
  have "lineWords (join_space [js ''THE'', js ''ONLY'', js ''WAY'', js ''OUT'', js ''IS'', js ''THROUGH!'']) =
          [js ''THE'', js ''ONLY'', js ''WAY'', js ''OUT'', js ''IS'', js ''THROUGH!'']"
    by blast
  then have ws: "lineWords (asciiUpperCase (quote_text ?q)) =
              [js ''THE'', js ''ONLY'', js ''WAY'', js ''OUT'', js ''IS'', js ''THROUGH!'']"
    unfolding up .
  have ns: "normalizeWord (js ''THE'') = js ''THE''" "normalizeWord (js ''ONLY'') = js ''ONLY''"
    "normalizeWord (js ''WAY'') = js ''WAY''" "normalizeWord (js ''OUT'') = js ''OUT''"
    "normalizeWord (js ''IS'') = js ''IS''"
    by (simp_all add: string_eval)
  have df: "js ''THE'' \<noteq> js ''THROUGH''" "js ''ONLY'' \<noteq> js ''THROUGH''"
    "js ''WAY'' \<noteq> js ''THROUGH''" "js ''OUT'' \<noteq> js ''THROUGH''" "js ''IS'' \<noteq> js ''THROUGH''"
    by (simp_all add: js_def)
  have cv: "painted (drawn ?c) = []" "asciiUpperCase (artistName sampleSettings) = js ''RUMI''"
    "highlightColor sampleSettings = ''#FF8C00''"
    by (simp_all add: setCanvasSize_def painted_def textCalls_def map_filter_def sample_eval string_eval)
  from highlight_decision[where quote = "?q" and toUpper = asciiUpperCase
      and measureText = "fixedPitch 40" and st = sampleSettings and c = "?c"]
  have "painted (drawn (drawText asciiUpperCase (fixedPitch 40) sampleSettings ?q ?c)) =
     painted (drawn ?c) @
     [(openingQuote, Color ''#ffffff'')] @
     map (\<lambda>w. (w, if normalizeWord w \<noteq> [] \<and> normalizeWord (highlightedWord ?q) \<noteq> [] \<and>
                      normalizeWord w = normalizeWord (highlightedWord ?q)
                   then Color (highlightColor sampleSettings) else Color ''#ffffff''))
       (lineWords (asciiUpperCase (quote_text ?q))) @
     [(asciiUpperCase (artistName sampleSettings), Color ''#ffffff'')]"
    by blast
  then have run: "painted (drawn (drawText asciiUpperCase (fixedPitch 40) sampleSettings ?q ?c)) =
     [(openingQuote, Color ''#ffffff''),
      (js ''THE'', Color ''#ffffff''),
      (js ''ONLY'', Color ''#ffffff''),
      (js ''WAY'', Color ''#ffffff''),
      (js ''OUT'', Color ''#ffffff''),
      (js ''IS'', Color ''#ffffff''),
      (js ''THROUGH!'', Color ''#FF8C00''),
      (js ''RUMI'', Color ''#ffffff'')]"
    unfolding ws cv hw by (simp add: n1 n2 ns df ne)
  have h: "trim (highlightedWord ?b) = []" by (simp add: sample_eval trim_def isSpace_def js_def)
  with highlight_decision[of ?b "js ''THROUGH''"]
  have neg: "\<not> shouldHighlight (normalizedHighlightedWord ?b) (normalizeWord (js ''THROUGH''))"
    by blast
  from n1 n2 pos run h neg show ?thesis by blast
qed

section \<open>Vertical placement\<close>

text \<open>
  Claim C6. Read with the arithmetic of the program: the line height is the font size
  times the literal 1.3, rounded; on the 1350-pixel canvas the start position is 200 plus
  half a line height for text at the top, and 1350 - 200 - (number of lines times line
  height) for text at the bottom, each operation rounded; and every word of the line with
  index \<open>i\<close> is drawn at the vertical position start + i * line height, rounded. For a
  font size up to 512 the line height is within \<open>2\<^sup>-\<^sup>4\<^sup>3\<close> of the exact product (it is the
  exact product for size 70 and is not for size 72). The words of a line are its maximal
  runs of characters other than white space: a line that joins non-empty words free of
  white space with single spaces has exactly these words. The text pass draws the
  quotation mark at the start position, then the words of the wrapped lines at these
  positions, then the caption.

  In the run at size 72 with the text at the bottom, the line height is
  \<^verbatim>\<open>93.60000000000001\<close>, the two lines start at \<^verbatim>\<open>962.8\<close> and the second line is
  drawn at \<^verbatim>\<open>1056.3999999999999\<close>; at the top the start position would be \<^verbatim>\<open>246.8\<close>.
\<close>

theorem vertical_placement:
  "lineHeight efs = binary64 (efs * binary64 1.3) \<and>
   binary64 1.3 = 5854679515581645 / 4503599627370496 \<and>
   startY Top 1350 (lineHeight efs) n = binary64 (200 + binary64 (lineHeight efs / 2)) \<and>
   startY Bottom 1350 (lineHeight efs) n =
     binary64 (binary64 (1350 - 200) - binary64 (real n * lineHeight efs)) \<and>
   binary64 (1350 - 200) = 1150 \<and>
   (0 < efs \<and> efs \<le> 512 \<longrightarrow> \<bar>lineHeight efs - efs * 1.3\<bar> \<le> 1 / 2 ^ 43) \<and>
   ((\<forall>w\<in>set ws. w \<noteq> [] \<and> (\<forall>c\<in>set w. \<not> isSpace c)) \<longrightarrow>
      lineWords (join_space ws) = ws) \<and>
   placed (drawn (drawLines measureText hc nh cx sY lh lines c)) =
     placed (drawn c) @
     concat (map (\<lambda>(l, i). map (\<lambda>w. (w, binary64 (sY + binary64 (real i * lh)))) (lineWords l))
               (zip lines [0 ..< length lines])) \<and>
   placed (drawn (drawText toUpper measureText st quote c)) =
     placed (drawn c) @
     [(openingQuote,
       startY (textPosition quote) (canvas_height c) (lineHeight (effectiveFontSize st quote))
         (length (layoutLines toUpper (measureText (bodyFont st quote)) (quote_text quote))))] @
     concat (map (\<lambda>(l, i). map (\<lambda>w. (w,
         binary64 (startY (textPosition quote) (canvas_height c) (lineHeight (effectiveFontSize st quote))
                     (length (layoutLines toUpper (measureText (bodyFont st quote)) (quote_text quote)))
                   + binary64 (real i * lineHeight (effectiveFontSize st quote))))) (lineWords l))
       (zip (layoutLines toUpper (measureText (bodyFont st quote)) (quote_text quote))
            [0 ..< length (layoutLines toUpper (measureText (bodyFont st quote)) (quote_text quote))])) @
     [(toUpper (artistName st), binary64 (canvas_height c - 100))]"
proof -
  have a: "lineHeight efs = binary64 (efs * binary64 1.3)" by (simp add: lineHeight_def)
  have b: "startY Top 1350 (lineHeight efs) n = binary64 (200 + binary64 (lineHeight efs / 2))"
    by (simp add: startY_def topPadding_def)
  have c: "startY Bottom 1350 (lineHeight efs) n =
     binary64 (binary64 (1350 - 200) - binary64 (real n * lineHeight efs))"
    by (simp add: startY_def bottomPadding_def)
  have d: "binary64 (1350 - 200) = 1150" by (simp add: binary64_eval)
  have e: "0 < efs \<and> efs \<le> 512 \<longrightarrow> \<bar>lineHeight efs - efs * 1.3\<bar> \<le> 1 / 2 ^ 43"
    using lineHeight_near by blast
  have f: "(\<forall>w\<in>set ws. w \<noteq> [] \<and> (\<forall>c\<in>set w. \<not> isSpace c)) \<longrightarrow>
      lineWords (join_space ws) = ws"
    using lineWords_join_space by blast
  from a binary64_literal_1_3 b c d e f drawLines_placed drawText_placed show ?thesis by blast
qed

theorem vertical_placement_witness:
  "lineHeight 72 = 6586514455029351 / 70368744177664 \<and>
   \<bar>lineHeight 72 - 72 * 1.3\<bar> \<le> 1 / 2 ^ 43 \<and>
   lineHeight 72 \<noteq> 72 * 1.3 \<and>
   lineHeight 70 = 91 \<and>
   startY Top 1350 (lineHeight 72) 2 = 4341751515761869 / 17592186044416 \<and>
   startY Bottom 1350 (lineHeight 72) 2 = 4234439180890931 / 4398046511104 \<and>
   placed (drawn (drawText asciiUpperCase (fixedPitch 40) sampleSettings
                    (sampleQuote\<lparr>textPosition := Bottom, fontSize := Some 72\<rparr>)
                    (setCanvasSize blankCanvas 1080 1350))) =
     [(openingQuote, 4234439180890931 / 4398046511104),
      (js ''THE'', 4234439180890931 / 4398046511104),
      (js ''ONLY'', 4234439180890931 / 4398046511104),
      (js ''WAY'', 4234439180890931 / 4398046511104),
      (js ''OUT'', 4234439180890931 / 4398046511104),
      (js ''IS'', 4234439180890931 / 4398046511104),
      (js ''THROUGH'', 4646096334330265 / 4398046511104),
      (js ''RUMI'', 1250)]"
proof -
  let ?q = "sampleQuote\<lparr>textPosition := Bottom, fontSize := Some 72\<rparr>"
  let ?c = "setCanvasSize blankCanvas 1080 1350"
  let ?m = "fixedPitch 40"
  define v :: real where "v = 6586514455029351 / 70368744177664"
  define s :: real where "s = 4234439180890931 / 4398046511104"
  define y :: real where "y = 4646096334330265 / 4398046511104"
  have lh: "lineHeight 72 = v" unfolding v_def by (rule lineHeight_72)
  have sy: "startY Bottom 1350 v 2 = s" unfolding v_def s_def by (rule startY_Bottom_72)
  have y0: "binary64 s = s" unfolding s_def
    by (subst binary64_at[where k = 9]) (simp_all add: power_int_minus roundHalfEven_def)
  have y1a: "binary64 v = v" unfolding v_def
    by (subst binary64_at[where k = 6]) (simp_all add: power_int_minus roundHalfEven_def)
  have y1: "binary64 (s + v) = y" unfolding s_def v_def y_def
    by (subst binary64_at[where k = 10]) (simp_all add: power_int_minus roundHalfEven_def)
  have sy2: "startY Bottom 1350 v (Suc (Suc 0)) = s" using sy by (simp add: numeral_2_eq_2)
  have efs: "effectiveFontSize sampleSettings ?q = 72"
    by (simp add: effectiveFontSize_def sample_eval)
  have lay: "layoutLines asciiUpperCase (?m (bodyFont sampleSettings ?q)) (quote_text ?q) =
               [js ''THE ONLY WAY OUT IS'', js ''THROUGH'']"
    by (simp add: sample_eval string_eval layout_eval del: split_space_Cons split_ws_Cons)
  have j0: "join_space [js ''THE'', js ''ONLY'', js ''WAY'', js ''OUT'', js ''IS''] =
              js ''THE ONLY WAY OUT IS''"
    and j1: "join_space [js ''THROUGH''] = js ''THROUGH''"
    by (simp_all add: js_def)
  have g0: "\<forall>w\<in>set [js ''THE'', js ''ONLY'', js ''WAY'', js ''OUT'', js ''IS''].
              w \<noteq> [] \<and> (\<forall>c\<in>set w. \<not> isSpace c)"
    and g1: "\<forall>w\<in>set [js ''THROUGH'']. w \<noteq> [] \<and> (\<forall>c\<in>set w. \<not> isSpace c)"
    by (simp_all add: js_def isSpace_def)
  from vertical_placement[where ws = "[js ''THE'', js ''ONLY'', js ''WAY'', js ''OUT'', js ''IS'']"] g0
  have "lineWords (join_space [js ''THE'', js ''ONLY'', js ''WAY'', js ''OUT'', js ''IS'']) =
          [js ''THE'', js ''ONLY'', js ''WAY'', js ''OUT'', js ''IS'']"
    by blast
  then have w0: "lineWords (js ''THE ONLY WAY OUT IS'') =
              [js ''THE'', js ''ONLY'', js ''WAY'', js ''OUT'', js ''IS'']"
    unfolding j0 .
  from vertical_placement[where ws = "[js ''THROUGH'']"] g1
  have "lineWords (join_space [js ''THROUGH'']) = [js ''THROUGH'']"
    by blast
  then have w1: "lineWords (js ''THROUGH'') = [js ''THROUGH'']"
    unfolding j1 .
  have cv: "canvas_height ?c = 1350" "placed (drawn ?c) = []" "textPosition ?q = Bottom"
    "asciiUpperCase (artistName sampleSettings) = js ''RUMI''"
    by (simp_all add: setCanvasSize_def placed_def textCalls_def map_filter_def sample_eval string_eval)
  have z: "zip [js ''THE ONLY WAY OUT IS'', js ''THROUGH''] [0 ..< 2] =
             [(js ''THE ONLY WAY OUT IS'', 0), (js ''THROUGH'', 1)]"
    by (simp add: upt_rec)
  from vertical_placement[where efs = 72 and n = 2 and toUpper = asciiUpperCase
      and measureText = "?m" and st = sampleSettings and quote = "?q" and c = "?c"]
  have "placed (drawn (drawText asciiUpperCase ?m sampleSettings ?q ?c)) =
     placed (drawn ?c) @
     [(openingQuote,
       startY (textPosition ?q) (canvas_height ?c) (lineHeight (effectiveFontSize sampleSettings ?q))
         (length (layoutLines asciiUpperCase (?m (bodyFont sampleSettings ?q)) (quote_text ?q))))] @
     concat (map (\<lambda>(l, i). map (\<lambda>w. (w,
         binary64 (startY (textPosition ?q) (canvas_height ?c) (lineHeight (effectiveFontSize sampleSettings ?q))
                     (length (layoutLines asciiUpperCase (?m (bodyFont sampleSettings ?q)) (quote_text ?q)))
                   + binary64 (real i * lineHeight (effectiveFontSize sampleSettings ?q))))) (lineWords l))
       (zip (layoutLines asciiUpperCase (?m (bodyFont sampleSettings ?q)) (quote_text ?q))
            [0 ..< length (layoutLines asciiUpperCase (?m (bodyFont sampleSettings ?q)) (quote_text ?q))])) @
     [(asciiUpperCase (artistName sampleSettings), binary64 (canvas_height ?c - 100))]"
    by blast
  then have main: "placed (drawn (drawText asciiUpperCase ?m sampleSettings ?q ?c)) =
     [(openingQuote, s), (js ''THE'', s), (js ''ONLY'', s), (js ''WAY'', s), (js ''OUT'', s),
      (js ''IS'', s), (js ''THROUGH'', y), (js ''RUMI'', 1250)]"
    unfolding lay efs cv lh
    by (simp add: sy2 z w0 w1 y0 y1a y1 binary64_eval)
  have h72: "0 < (72::real) \<and> (72::real) \<le> 512" by simp
  from vertical_placement[where efs = 72 and n = 2]
  have "0 < (72::real) \<and> (72::real) \<le> 512 \<longrightarrow> \<bar>lineHeight 72 - 72 * 1.3\<bar> \<le> 1 / 2 ^ 43"
    by blast
  with h72 have near: "\<bar>lineHeight 72 - 72 * 1.3\<bar> \<le> 1 / 2 ^ 43" by blast
  have top: "startY Top 1350 (lineHeight 72) 2 = 4341751515761869 / 17592186044416"
    unfolding lh v_def by (rule startY_Top_72)
  have bot: "startY Bottom 1350 (lineHeight 72) 2 = s" unfolding lh by (rule sy)
  from lh near lineHeight_72_inexact lineHeight_70 top bot main
  show ?thesis unfolding v_def s_def y_def by blast
qed

section \<open>Empty quote text\<close>

lemma buildGradient_Inr:
  assumes "0 \<le> g" and "g \<le> 1"
  shows "buildGradient pos h g =
           Inr (LinearGradient 0 0 0 h
                  (if pos = Top
                   then [(0, ''rgba(0, 0, 0, 0.85)''), (g, ''rgba(0, 0, 0, 0)''), (1, ''rgba(0, 0, 0, 0)'')]
                   else [(0, ''rgba(0, 0, 0, 0)''), (g, ''rgba(0, 0, 0, 0)''), (1, ''rgba(0, 0, 0, 0.85)'')]))"
  using assms by (simp add: buildGradient_def addColorStop_def bind_error_def)





section \<open>Further properties of the renderer\<close>

lemma buildGradient_Inl:
  assumes "g < 0 \<or> 1 < g"
  shows "buildGradient pos h g = Inl IndexSizeError"
  using assms by (auto simp: buildGradient_def addColorStop_def bind_error_def Let_def)

lemma drawBackground_frame:
  "has2d (drawBackground c quote) = has2d c"
  "canvas_width (drawBackground c quote) = canvas_width c"
  "canvas_height (drawBackground c quote) = canvas_height c"
  by (simp_all add: drawBackground_def Let_def split: option.split)

lemma drawText_has2d: "has2d (drawText up measureText st quote c) = has2d c"
proof -
  have ne: "layoutLines up (measureText (bodyFont st quote)) (quote_text quote) \<noteq> []"
    by (rule layoutLines_nonempty)
  show ?thesis
    by (simp add: drawText_def Let_def drawArtistName_log(2) drawLines_frame
        drawOpeningQuote_log(2)[OF ne])
qed

lemma setCanvasSize_forgets:
  "has2d a = has2d b \<Longrightarrow> setCanvasSize a w h = setCanvasSize b w h"
  by (cases a, cases b) (simp add: setCanvasSize_def)

lemma drawQuoteOnCanvas_has2d:
  "drawQuoteOnCanvas up measureText st c quote = Inr c' \<Longrightarrow> has2d c' = has2d c"
  by (auto simp: drawQuoteOnCanvas_def Let_def bind_error_def drawGradient_def fillRect_def
      drawText_has2d drawBackground_frame setCanvasSize_def split: if_splits sum.splits)

text \<open>
  The layout never returns an empty list: the buffer is non-empty when the loop ends,
  so the test \<^verbatim>\<open>currentLine !== ''\<close> after the loop and the test \<^verbatim>\<open>lines.length > 0\<close>
  before the quotation mark always succeed, and the quotation mark is always drawn.
\<close>

theorem layout_never_empty:
  "layoutLines toUpper widthOf t \<noteq> [] \<and>
   snd (wrapWords widthOf (split_space (toUpper t))) \<noteq> [] \<and>
   drawOpeningQuote measureText efs centerX sY (layoutLines toUpper widthOf t) c \<noteq> c"
proof -
  have a: "layoutLines toUpper widthOf t \<noteq> []" by (rule layoutLines_nonempty)
  have b: "snd (wrapWords widthOf (split_space (toUpper t))) \<noteq> []"
    by (rule wrapWords_buffer_nonempty) (rule split_space_nonempty)
  have "drawn (drawOpeningQuote measureText efs centerX sY (layoutLines toUpper widthOf t) c) \<noteq> drawn c"
    using drawOpeningQuote_log(1)[OF a, of measureText efs centerX sY c] by simp
  then have c: "drawOpeningQuote measureText efs centerX sY (layoutLines toUpper widthOf t) c \<noteq> c"
    by auto
  from a b c show ?thesis by blast
qed

text \<open>
  The canvas is reset before anything is drawn: with the quote, the settings and the host
  functions fixed, any two canvases with a 2D context give the same result, and rendering
  again onto the result gives the same result again. Without a 2D context the renderer
  leaves the canvas as it is.
\<close>

theorem canvas_state_forgotten:
  "(has2d c1 \<and> has2d c2 \<longrightarrow>
      drawQuoteOnCanvas toUpper measureText st c1 quote =
      drawQuoteOnCanvas toUpper measureText st c2 quote) \<and>
   bind_error (drawQuoteOnCanvas toUpper measureText st c quote)
      (\<lambda>c'. drawQuoteOnCanvas toUpper measureText st c' quote) =
     drawQuoteOnCanvas toUpper measureText st c quote \<and>
   (\<not> has2d c \<longrightarrow> drawQuoteOnCanvas toUpper measureText st c quote = Inr c)"
proof -
  have same: "drawQuoteOnCanvas toUpper measureText st a quote =
              drawQuoteOnCanvas toUpper measureText st b quote"
    if "has2d a = has2d b" "has2d a" for a b
    using that setCanvasSize_forgets[OF that(1), of 1080 1350]
    by (simp add: drawQuoteOnCanvas_def)
  have a: "has2d c1 \<and> has2d c2 \<longrightarrow>
      drawQuoteOnCanvas toUpper measureText st c1 quote =
      drawQuoteOnCanvas toUpper measureText st c2 quote"
    using same[of c1 c2] by simp
  have again: "drawQuoteOnCanvas toUpper measureText st c' quote = Inr c'"
    if r: "drawQuoteOnCanvas toUpper measureText st c quote = Inr c'" for c'
  proof -
    have h: "has2d c' = has2d c" using r by (rule drawQuoteOnCanvas_has2d)
    show ?thesis
    proof (cases "has2d c")
      case True
      then show ?thesis using same[of c' c] h r by simp
    next
      case False
      then have "c' = c" using r by (simp add: drawQuoteOnCanvas_def)
      then show ?thesis using r by simp
    qed
  qed
  have b: "bind_error (drawQuoteOnCanvas toUpper measureText st c quote)
      (\<lambda>c'. drawQuoteOnCanvas toUpper measureText st c' quote) =
     drawQuoteOnCanvas toUpper measureText st c quote"
    using again
    by (cases "drawQuoteOnCanvas toUpper measureText st c quote") (simp_all add: bind_error_def)
  have c: "\<not> has2d c \<longrightarrow> drawQuoteOnCanvas toUpper measureText st c quote = Inr c"
    by (simp add: drawQuoteOnCanvas_def)
  from a b c show ?thesis by blast
qed

theorem canvas_state_forgotten_witness:
  "has2d blankCanvas \<and> has2d usedCanvas \<and> blankCanvas \<noteq> usedCanvas \<and>
   drawQuoteOnCanvas asciiUpperCase (fixedPitch 30) sampleSettings blankCanvas sampleQuote =
   drawQuoteOnCanvas asciiUpperCase (fixedPitch 30) sampleSettings usedCanvas sampleQuote \<and>
   \<not> has2d noContextCanvas \<and>
   drawQuoteOnCanvas asciiUpperCase (fixedPitch 30) sampleSettings noContextCanvas sampleQuote =
     Inr noContextCanvas"
proof -
  have h: "has2d blankCanvas" "has2d usedCanvas" "\<not> has2d noContextCanvas"
    by (simp_all add: sample_eval)
  have d: "blankCanvas \<noteq> usedCanvas" by (simp add: sample_eval)
  from canvas_state_forgotten[of blankCanvas usedCanvas asciiUpperCase "fixedPitch 30"
      sampleSettings sampleQuote]
    canvas_state_forgotten[of _ _ asciiUpperCase "fixedPitch 30" sampleSettings sampleQuote
      noContextCanvas]
  show ?thesis using h d by blast
qed

text \<open>
  With a 2D context, the renderer throws (\<^verbatim>\<open>IndexSizeError\<close> from \<^verbatim>\<open>addColorStop\<close>)
  exactly when the gradient start is below 0 or above 1; the renderer does not clamp it.
\<close>

theorem gradient_start_out_of_range:
  assumes "has2d c"
  shows "drawQuoteOnCanvas toUpper measureText st c quote = Inl IndexSizeError \<longleftrightarrow>
           gradientStartPosition quote < 0 \<or> 1 < gradientStartPosition quote"
proof (cases "gradientStartPosition quote < 0 \<or> 1 < gradientStartPosition quote")
  case True
  then have "drawQuoteOnCanvas toUpper measureText st c quote = Inl IndexSizeError"
    using assms
    by (simp add: drawQuoteOnCanvas_def Let_def drawGradient_def buildGradient_Inl bind_error_def)
  then show ?thesis using True by simp
next
  case False
  then have g: "0 \<le> gradientStartPosition quote" "gradientStartPosition quote \<le> 1" by simp_all
  have "drawQuoteOnCanvas toUpper measureText st c quote \<noteq> Inl IndexSizeError"
    using assms
    by (simp add: drawQuoteOnCanvas_def Let_def drawGradient_def buildGradient_Inr[OF g] bind_error_def)
  then show ?thesis using False by simp
qed

theorem gradient_start_out_of_range_witness:
  "has2d blankCanvas \<and>
   drawQuoteOnCanvas asciiUpperCase (fixedPitch 30) sampleSettings blankCanvas
     (sampleQuote\<lparr>gradientStart := Some 1.5\<rparr>) = Inl IndexSizeError"
proof -
  have h: "has2d blankCanvas" by (simp add: blankCanvas_def)
  have g: "1 < gradientStartPosition (sampleQuote\<lparr>gradientStart := Some 1.5\<rparr>)"
    by (simp add: gradientStartPosition_def)
  from gradient_start_out_of_range[OF h, of asciiUpperCase "fixedPitch 30" sampleSettings
      "sampleQuote\<lparr>gradientStart := Some 1.5\<rparr>"] g h
  show ?thesis by blast
qed

text \<open>
  The caption is the last drawing call of the text pass: the artist name in upper
  case, centred at half the canvas width, 100 pixels above the bottom edge, in white
  36-pixel Arial, for either text position.
\<close>

theorem caption_placement:
  "\<exists>before. drawn (drawText toUpper measureText st quote c) =
      before @ [FillText (toUpper (artistName st)) (binary64 (canvas_width c / 2))
                  (binary64 (canvas_height c - 100))
                  captionFont (Color ''#ffffff'') ''center'' ''middle''] \<and>
   captionFont = Font ''normal'' 36 ''Arial, sans-serif''"
  using drawText_log[of c measureText st quote toUpper] by (auto simp: captionFont_def)

end
